theory Spec2Isabelle
  imports Complex_Main "HOL-Library.Multiset"
begin

section \<open>JavaScript numbers\<close>

text \<open>
  The coordinates of a landmark are JavaScript numbers: IEEE 754 binary64 values. A
  finite value is kept as the real number it stands for (the two zeros are one value:
  subtraction, \<open>Math.abs\<close> and \<open><\<close> cannot tell them apart in what a comparison
  returns); the others are the two infinities and NaN. The result of an
  arithmetic operation on finite values is the exact result rounded to the nearest
  binary64 value, ties to the even mantissa: \<open>expo\<close> is the binary exponent of a
  magnitude, kept within the range -1022 to 1023 of binary64 (below it the numbers are
  subnormal), \<open>quantum\<close> the distance of neighbouring values there (53 bits of mantissa),
  and a mantissa of 2 to the 53 in the top exponent is the overflow to infinity.
\<close>

datatype double = NaN | PInf | NInf | Fin real

definition roundAt :: "real \<Rightarrow> int \<Rightarrow> int" where
  "roundAt r f =
     (if r - of_int f < 1 / 2 then f
      else if 1 / 2 < r - of_int f then f + 1
      else if even f then f else f + 1)"

definition roundHalfEven :: "real \<Rightarrow> int" where
  "roundHalfEven r = roundAt r \<lfloor>r\<rfloor>"

fun lowExp :: "nat \<Rightarrow> real \<Rightarrow> int" where
  "lowExp 0 a = - 1"
| "lowExp (Suc n) a = (if 1 \<le> 2 * a then - 1 else lowExp n (2 * a) - 1)"

fun highExp :: "nat \<Rightarrow> real \<Rightarrow> int" where
  "highExp 0 a = 0"
| "highExp (Suc n) a = (if a < 2 then 0 else highExp n (a / 2) + 1)"

definition expo :: "real \<Rightarrow> int" where
  "expo a = (if a < 1 then lowExp 1021 a else highExp 1023 a)"

definition quantum :: "real \<Rightarrow> real" where
  "quantum r = 2 powi (expo \<bar>r\<bar> - 52)"

definition mant :: "real \<Rightarrow> int" where
  "mant r = roundHalfEven (r / quantum r)"

definition rnd :: "real \<Rightarrow> real" where
  "rnd r = of_int (mant r) * quantum r"

definition pack :: "real \<Rightarrow> int \<Rightarrow> real \<Rightarrow> int \<Rightarrow> double" where
  "pack r e q n =
     (if e = 1023 \<and> 2 ^ 53 \<le> \<bar>n\<bar> then (if 0 < r then PInf else NInf)
      else Fin (of_int n * q))"

definition packAt :: "real \<Rightarrow> int \<Rightarrow> real \<Rightarrow> double" where
  "packAt r e q = pack r e q (roundHalfEven (r / q))"

definition fromRealAt :: "real \<Rightarrow> int \<Rightarrow> double" where
  "fromRealAt r e = packAt r e (2 powi (e - 52))"

definition fromReal :: "real \<Rightarrow> double" where
  "fromReal r = (if r = 0 then Fin 0 else fromRealAt r (expo \<bar>r\<bar>))"

text \<open>
  The operations of the source: binary \<open>-\<close>, \<open>+\<close>, \<open>*\<close>, \<open>Math.abs\<close>, \<open><\<close>, a decimal
  literal, and \<open>Math.pow(v, 2)\<close> and \<open>Math.sqrt\<close>, which are taken to return the correctly
  rounded result (they are used for the calibration data only).
\<close>

definition dsub :: "double \<Rightarrow> double \<Rightarrow> double" where
  "dsub a b =
     (case a of
        NaN \<Rightarrow> NaN
      | PInf \<Rightarrow> (case b of NaN \<Rightarrow> NaN | PInf \<Rightarrow> NaN | _ \<Rightarrow> PInf)
      | NInf \<Rightarrow> (case b of NaN \<Rightarrow> NaN | NInf \<Rightarrow> NaN | _ \<Rightarrow> NInf)
      | Fin u \<Rightarrow> (case b of NaN \<Rightarrow> NaN | PInf \<Rightarrow> NInf | NInf \<Rightarrow> PInf
                  | Fin v \<Rightarrow> fromReal (u - v)))"

definition dadd :: "double \<Rightarrow> double \<Rightarrow> double" where
  "dadd a b =
     (case a of
        NaN \<Rightarrow> NaN
      | PInf \<Rightarrow> (case b of NaN \<Rightarrow> NaN | NInf \<Rightarrow> NaN | _ \<Rightarrow> PInf)
      | NInf \<Rightarrow> (case b of NaN \<Rightarrow> NaN | PInf \<Rightarrow> NaN | _ \<Rightarrow> NInf)
      | Fin u \<Rightarrow> (case b of NaN \<Rightarrow> NaN | PInf \<Rightarrow> PInf | NInf \<Rightarrow> NInf
                  | Fin v \<Rightarrow> fromReal (u + v)))"

definition dsign :: "double \<Rightarrow> int" where
  "dsign a = (case a of NaN \<Rightarrow> 0 | PInf \<Rightarrow> 1 | NInf \<Rightarrow> - 1 | Fin u \<Rightarrow> sgn \<lfloor>sgn u\<rfloor>)"

definition dmul :: "double \<Rightarrow> double \<Rightarrow> double" where
  "dmul a b =
     (case (a, b) of
        (Fin u, Fin v) \<Rightarrow> fromReal (u * v)
      | _ \<Rightarrow> (if a = NaN \<or> b = NaN \<or> dsign a * dsign b = 0 then NaN
              else if 0 < dsign a * dsign b then PInf else NInf))"

definition dsqrt :: "double \<Rightarrow> double" where
  "dsqrt a =
     (case a of
        NaN \<Rightarrow> NaN
      | PInf \<Rightarrow> PInf
      | NInf \<Rightarrow> NaN
      | Fin u \<Rightarrow> (if u < 0 then NaN else fromReal (sqrt u)))"

definition dabs :: "double \<Rightarrow> double" where
  "dabs a = (case a of NaN \<Rightarrow> NaN | PInf \<Rightarrow> PInf | NInf \<Rightarrow> PInf | Fin u \<Rightarrow> Fin \<bar>u\<bar>)"

definition dlt :: "double \<Rightarrow> double \<Rightarrow> bool" where
  "dlt a b =
     (case a of
        NaN \<Rightarrow> False
      | PInf \<Rightarrow> False
      | NInf \<Rightarrow> (case b of PInf \<Rightarrow> True | Fin v \<Rightarrow> True | _ \<Rightarrow> False)
      | Fin u \<Rightarrow> (case b of PInf \<Rightarrow> True | Fin v \<Rightarrow> u < v | _ \<Rightarrow> False))"

definition literal :: "real \<Rightarrow> double" where
  "literal r = fromReal r"

text \<open>
  The square root of a real number has no code equation; the calibration data, its only
  use, is stored and never read, so \<open>dsqrt\<close> stays unevaluated in computations.
\<close>

declare dsqrt_def [code del]

section \<open>Landmarks and the per-frame gesture classifier\<close>

text \<open>
  The service \<open>MediaPipeService\<close> (src/unnamed/part_001, lines 1-397) receives, for
  every processed camera frame, the hand landmarks found by the pose model. A landmark
  is an object with three numeric coordinates.
\<close>

record landmark =
  x :: double
  y :: double
  z :: double

text \<open>
  The only failure the classifier could run into is a property read on \<open>undefined\<close>:
  reading \<open>landmarks[i]\<close> beyond the end of a JavaScript array gives \<open>undefined\<close>, and
  \<open>undefined.y\<close> throws a TypeError. \<open>landmarkAt\<close> is that read.
\<close>

datatype error = TypeError

definition landmarkAt :: "landmark list \<Rightarrow> nat \<Rightarrow> error + landmark" where
  "landmarkAt landmarks i = (if i < length landmarks then Inr (landmarks ! i) else Inl TypeError)"

definition bnd :: "error + 'a \<Rightarrow> ('a \<Rightarrow> error + 'b) \<Rightarrow> error + 'b" where
  "bnd m f = (case m of Inl e \<Rightarrow> Inl e | Inr v \<Rightarrow> f v)"

text \<open>\<open>isFingerExtended\<close>, lines 355-383. The knuckle and the wrist are passed but not read.\<close>

definition isFingerExtended :: "landmark \<Rightarrow> landmark \<Rightarrow> landmark \<Rightarrow> landmark \<Rightarrow> bool \<Rightarrow> bool" where
  "isFingerExtended tipLandmark pipLandmark mcpLandmark wristLandmark isThumb =
     (if isThumb then
        (let thumbUp = dlt (y tipLandmark) (dsub (y pipLandmark) (literal (5 / 100)));
             notCurled = dlt (dabs (dsub (z tipLandmark) (z pipLandmark))) (literal (1 / 10))
         in thumbUp \<and> notCurled)
      else
        (let isHigherThanPIP = dlt (y tipLandmark) (dsub (y pipLandmark) (literal (7 / 100)));
             isForward = dlt (dabs (dsub (z tipLandmark) (z pipLandmark))) (literal (7 / 100))
         in isHigherThanPIP \<and> isForward))"

text \<open>
  \<open>detectImprovedGesture\<close>, lines 295-352, in three parts: the five flags of one hand
  (lines 299-324), the decision on the flags (lines 326-351), and the guard in front of
  both (line 297). \<open>None\<close> is a missing (null or undefined) landmark list.
\<close>

record fingerFlags =
  isThumbUp :: bool
  isIndexExtended :: bool
  isMiddleExtended :: bool
  isRingExtended :: bool
  isPinkyExtended :: bool

definition fingerFlagsOf :: "landmark list \<Rightarrow> error + fingerFlags" where
  "fingerFlagsOf landmarks =
     bnd (landmarkAt landmarks 0) (\<lambda>wrist.
     bnd (landmarkAt landmarks 4) (\<lambda>thumbTip.
     bnd (landmarkAt landmarks 8) (\<lambda>indexTip.
     bnd (landmarkAt landmarks 12) (\<lambda>middleTip.
     bnd (landmarkAt landmarks 16) (\<lambda>ringTip.
     bnd (landmarkAt landmarks 20) (\<lambda>pinkyTip.
     bnd (landmarkAt landmarks 5) (\<lambda>indexMCP.
     bnd (landmarkAt landmarks 9) (\<lambda>middleMCP.
     bnd (landmarkAt landmarks 13) (\<lambda>ringMCP.
     bnd (landmarkAt landmarks 17) (\<lambda>pinkyMCP.
     bnd (landmarkAt landmarks 6) (\<lambda>indexPIP.
     bnd (landmarkAt landmarks 10) (\<lambda>middlePIP.
     bnd (landmarkAt landmarks 14) (\<lambda>ringPIP.
     bnd (landmarkAt landmarks 18) (\<lambda>pinkyPIP.
     bnd (landmarkAt landmarks 3) (\<lambda>thumbIP.
     bnd (landmarkAt landmarks 2) (\<lambda>thumbMCP.
       Inr \<lparr> isThumbUp = isFingerExtended thumbTip thumbIP thumbMCP wrist True,
             isIndexExtended = isFingerExtended indexTip indexPIP indexMCP wrist False,
             isMiddleExtended = isFingerExtended middleTip middlePIP middleMCP wrist False,
             isRingExtended = isFingerExtended ringTip ringPIP ringMCP wrist False,
             isPinkyExtended = isFingerExtended pinkyTip pinkyPIP pinkyMCP wrist False \<rparr>
     ))))))))))))))))"

definition extendedFingerCount :: "fingerFlags \<Rightarrow> nat" where
  "extendedFingerCount f =
     (if isIndexExtended f then 1 else 0) +
     (if isMiddleExtended f then 1 else 0) +
     (if isRingExtended f then 1 else 0) +
     (if isPinkyExtended f then 1 else 0)"

definition gestureOfFlags :: "fingerFlags \<Rightarrow> nat" where
  "gestureOfFlags f =
     (if isThumbUp f \<and> extendedFingerCount f = 0 then 6
      else if extendedFingerCount f \<ge> 4 then 5
      else if extendedFingerCount f > 0 \<and> extendedFingerCount f \<le> 4 then extendedFingerCount f
      else 0)"

definition detectImprovedGesture :: "landmark list option \<Rightarrow> error + nat" where
  "detectImprovedGesture landmarks =
     (case landmarks of
        None \<Rightarrow> Inr 0
      | Some lms \<Rightarrow>
          if length lms < 21 then Inr 0
          else bnd (fingerFlagsOf lms) (\<lambda>f. Inr (gestureOfFlags f)))"

text \<open>
  The decision order of the specification (section 4.2), written from its words: the
  thumb flag and the number \<open>k\<close> of extended non-thumb fingers decide the code.
\<close>

definition nonThumbCount :: "fingerFlags \<Rightarrow> nat" where
  "nonThumbCount f =
     length (filter id [isIndexExtended f, isMiddleExtended f, isRingExtended f, isPinkyExtended f])"

definition specGestureCode :: "bool \<Rightarrow> nat \<Rightarrow> nat" where
  "specGestureCode thumbUp k =
     (if thumbUp \<and> k = 0 then 6
      else if 4 \<le> k then 5
      else if 1 \<le> k \<and> k \<le> 4 then k
      else 0)"

section \<open>The service: state, timers and effects\<close>

text \<open>
  The fields of \<open>MediaPipeService\<close> (lines 3-21). The DOM elements, the pose model and the
  camera object are kept as flags (set or not set). \<open>Date.now()\<close> is an integer number of
  milliseconds, passed to every operation as \<open>now\<close>.

  The browser's pending timers are part of the state: \<open>setTimeout\<close> and \<open>setInterval\<close>
  register a callback with a due time, and a callback runs at or after its due time,
  never before. Timer handles are positive integers, so a stored handle is truthy and
  \<open>None\<close> is the \<open>null\<close> of the source. What the service does to its collaborators (the
  gesture callback, the pose model, the camera) is recorded in \<open>effects\<close> with the time.
\<close>

datatype callback =
    CooldownReset
  | NoLandmarksRestart
  | InitializeCamera
  | StuckCheck
  | CalibrationEnd

record timer =
  tid :: nat
  due :: int
  cb :: callback
  period :: "int option"

datatype effect =
    GestureCallback nat
  | HandsSend
  | CameraStart
  | CameraStop
  | Uncaught error

record service =
  hands :: bool
  camera :: bool
  canvasCtx :: bool
  videoElement :: bool
  canvasElement :: bool
  gestureCallback :: bool
  isCalibrating :: bool
  isReady :: bool
  calibrationData :: "(double \<times> double) option"
  lastGestureDetected :: nat
  gestureConfidence :: "nat \<rightharpoonup> nat"
  cameraStartAttempts :: nat
  lastFrameProcessed :: int
  lastLandmarkTime :: int
  stuckDetectionTimer :: "nat option"
  noLandmarksTimeout :: "nat option"
  timers :: "timer list"
  nextTimerId :: nat
  effects :: "(int \<times> effect) list"

definition gestureThreshold :: nat where
  "gestureThreshold = 3"

definition maxCameraAttempts :: nat where
  "maxCameraAttempts = 5"

definition processingFrameRate :: nat where
  "processingFrameRate = 15"

text \<open>The field initialisers of lines 3-21.\<close>

definition newService :: service where
  "newService =
     \<lparr> hands = False, camera = False, canvasCtx = False, videoElement = False,
       canvasElement = False, gestureCallback = False, isCalibrating = True,
       isReady = False, calibrationData = None, lastGestureDetected = 0,
       gestureConfidence = Map.empty, cameraStartAttempts = 0, lastFrameProcessed = 0,
       lastLandmarkTime = 0, stuckDetectionTimer = None, noLandmarksTimeout = None,
       timers = [], nextTimerId = 1, effects = [] \<rparr>"

definition setTimeout :: "int \<Rightarrow> int \<Rightarrow> callback \<Rightarrow> service \<Rightarrow> service" where
  "setTimeout now delay c s =
     s\<lparr> timers := timers s @ [\<lparr> tid = nextTimerId s, due = now + delay, cb = c, period = None \<rparr>],
        nextTimerId := nextTimerId s + 1 \<rparr>"

definition setInterval :: "int \<Rightarrow> int \<Rightarrow> callback \<Rightarrow> service \<Rightarrow> service" where
  "setInterval now delay c s =
     s\<lparr> timers := timers s @ [\<lparr> tid = nextTimerId s, due = now + delay, cb = c, period = Some delay \<rparr>],
        nextTimerId := nextTimerId s + 1 \<rparr>"

definition clearTimeout :: "nat \<Rightarrow> service \<Rightarrow> service" where
  "clearTimeout i s = s\<lparr> timers := filter (\<lambda>t. tid t \<noteq> i) (timers s) \<rparr>"

definition emit :: "int \<Rightarrow> effect \<Rightarrow> service \<Rightarrow> service" where
  "emit now e s = s\<lparr> effects := effects s @ [(now, e)] \<rparr>"

text \<open>
  \<open>initializeCamera\<close>, lines 70-105. A rejected \<open>camera.start()\<close> arrives later, as the
  event \<open>cameraStartError\<close> (lines 90-96).
\<close>

definition initializeCamera :: "int \<Rightarrow> service \<Rightarrow> service" where
  "initializeCamera now s =
     (let s1 = s\<lparr> cameraStartAttempts := cameraStartAttempts s + 1 \<rparr>
      in if videoElement s1 then emit now CameraStart (s1\<lparr> camera := True \<rparr>) else s1)"

definition cameraStartError :: "int \<Rightarrow> service \<Rightarrow> service" where
  "cameraStartError now s =
     (if cameraStartAttempts s < maxCameraAttempts
      then setTimeout now 1000 InitializeCamera s else s)"

text \<open>\<open>setupStuckDetection\<close>, lines 107-127: the interval, and the body of its callback.\<close>

definition setupStuckDetection :: "int \<Rightarrow> service \<Rightarrow> service" where
  "setupStuckDetection now s =
     (setInterval now 2000 StuckCheck s)\<lparr> stuckDetectionTimer := Some (nextTimerId s) \<rparr>"

definition clearNoLandmarksTimeout :: "service \<Rightarrow> service" where
  "clearNoLandmarksTimeout s =
     (case noLandmarksTimeout s of
        None \<Rightarrow> s
      | Some i \<Rightarrow> (clearTimeout i s)\<lparr> noLandmarksTimeout := None \<rparr>)"

definition stuckCheck :: "int \<Rightarrow> service \<Rightarrow> service" where
  "stuckCheck now s =
     (if now - lastLandmarkTime s > 3000 \<and> lastLandmarkTime s \<noteq> 0 then
        (let s1 = (if camera s then emit now CameraStop s else s);
             s2 = clearNoLandmarksTimeout s1
         in setTimeout now 500 InitializeCamera s2)
      else s)"

text \<open>\<open>startCalibration\<close>, lines 129-142, and \<open>stopCamera\<close>, lines 148-162.\<close>

definition startCalibration :: "int \<Rightarrow> service \<Rightarrow> service" where
  "startCalibration now s =
     setTimeout now 5000 CalibrationEnd
       (s\<lparr> isCalibrating := True, calibrationData := None,
           gestureConfidence := Map.empty, lastGestureDetected := 0 \<rparr>)"

definition stopCamera :: "int \<Rightarrow> service \<Rightarrow> service" where
  "stopCamera now s =
     (let s1 = (if camera s then emit now CameraStop s else s);
          s2 = (case stuckDetectionTimer s1 of
                  None \<Rightarrow> s1
                | Some i \<Rightarrow> (clearTimeout i s1)\<lparr> stuckDetectionTimer := None \<rparr>)
      in clearNoLandmarksTimeout s2)"

text \<open>\<open>collectCalibrationData\<close>, lines 239-264.\<close>

definition dsquare :: "double \<Rightarrow> double" where
  "dsquare a = dmul a a"

definition dist3 :: "landmark \<Rightarrow> landmark \<Rightarrow> double" where
  "dist3 a b =
     dsqrt (dadd (dadd (dsquare (dsub (x a) (x b))) (dsquare (dsub (y a) (y b))))
                 (dsquare (dsub (z a) (z b))))"

definition collectCalibrationData :: "landmark list \<Rightarrow> service \<Rightarrow> error + service" where
  "collectCalibrationData landmarks s =
     (if length landmarks < 21 then Inr s
      else
        bnd (landmarkAt landmarks 0) (\<lambda>wrist.
        bnd (landmarkAt landmarks 12) (\<lambda>middleTip.
        bnd (landmarkAt landmarks 4) (\<lambda>thumbTip.
        bnd (landmarkAt landmarks 8) (\<lambda>indexTip.
          Inr (s\<lparr> calibrationData :=
                  Some (dist3 middleTip wrist,
                        dmul (dist3 thumbTip indexTip) (literal (7 / 10))) \<rparr>))))))"

text \<open>
  \<open>processGestureWithConfidence\<close>, lines 267-293. The loop of lines 269-273 sets the
  counter of every key other than \<open>gesture\<close> to 0 and adds no key;
  \<open>(this.gestureConfidence[gesture] || 0)\<close> reads a missing counter as 0.
\<close>

definition streak :: "(nat \<rightharpoonup> nat) \<Rightarrow> nat \<Rightarrow> nat" where
  "streak conf k = (case conf k of None \<Rightarrow> 0 | Some n \<Rightarrow> n)"

definition resetOthers :: "nat \<Rightarrow> (nat \<rightharpoonup> nat) \<Rightarrow> (nat \<rightharpoonup> nat)" where
  "resetOthers gesture conf =
     (\<lambda>k. if k \<noteq> gesture then map_option (\<lambda>_. 0) (conf k) else conf k)"

definition processGestureWithConfidence :: "int \<Rightarrow> nat \<Rightarrow> service \<Rightarrow> service" where
  "processGestureWithConfidence now gesture s =
     (let conf1 = resetOthers gesture (gestureConfidence s);
          conf2 = conf1(gesture \<mapsto> streak conf1 gesture + 1);
          s1 = s\<lparr> gestureConfidence := conf2 \<rparr>
      in if streak conf2 gesture \<ge> gestureThreshold \<and> lastGestureDetected s1 \<noteq> gesture then
           (let s2 = s1\<lparr> lastGestureDetected := gesture \<rparr>;
                s3 = (if gestureCallback s2 then emit now (GestureCallback gesture) s2 else s2)
            in setTimeout now 1000 CooldownReset s3)
         else s1)"

text \<open>
  \<open>onResults\<close>, lines 164-237. The drawing calls have no effect on the state. The body of
  the loop over the detected hands is \<open>handleLandmarks\<close> (lines 207-220); an exception in
  it would end \<open>onResults\<close> with what the earlier iterations did.
\<close>

definition handleLandmarks :: "int \<Rightarrow> landmark list \<Rightarrow> service \<Rightarrow> error + service" where
  "handleLandmarks now landmarks s =
     (if isCalibrating s then collectCalibrationData landmarks s
      else if gestureCallback s then
        bnd (detectImprovedGesture (Some landmarks)) (\<lambda>gesture.
          if gesture > 0 then Inr (processGestureWithConfidence now gesture s) else Inr s)
      else Inr s)"

fun forEachHand :: "int \<Rightarrow> landmark list list \<Rightarrow> service \<Rightarrow> service" where
  "forEachHand now [] s = s"
| "forEachHand now (landmarks # rest) s =
     (case handleLandmarks now landmarks s of
        Inl e \<Rightarrow> emit now (Uncaught e) s
      | Inr s' \<Rightarrow> forEachHand now rest s')"

definition noLandmarksRestart :: "int \<Rightarrow> service \<Rightarrow> service" where
  "noLandmarksRestart now s =
     (let s1 = (if camera s then emit now CameraStop s else s)
      in setTimeout now 500 InitializeCamera s1)"

definition handsDetected :: "landmark list list option \<Rightarrow> bool" where
  "handsDetected multiHandLandmarks =
     (case multiHandLandmarks of None \<Rightarrow> False | Some hs \<Rightarrow> length hs > 0)"

definition onResults :: "int \<Rightarrow> landmark list list option \<Rightarrow> service \<Rightarrow> service" where
  "onResults now multiHandLandmarks s =
     (let s1 = s\<lparr> lastLandmarkTime := now \<rparr>;
          s2 = clearNoLandmarksTimeout s1
      in if \<not> canvasCtx s2 \<or> \<not> canvasElement s2 then s2
         else if handsDetected multiHandLandmarks then
           forEachHand now (the multiHandLandmarks) s2
         else
           (case noLandmarksTimeout s2 of
              None \<Rightarrow> (setTimeout now 5000 NoLandmarksRestart s2)
                         \<lparr> noLandmarksTimeout := Some (nextTimerId s2) \<rparr>
            | Some i \<Rightarrow> s2))"

text \<open>The \<open>onFrame\<close> callback of the camera, lines 76-85: the frame-rate limiter.\<close>

definition onFrame :: "int \<Rightarrow> service \<Rightarrow> service" where
  "onFrame now s =
     (if real_of_int (now - lastFrameProcessed s) > 1000 / real processingFrameRate then
        (let s1 = s\<lparr> lastFrameProcessed := now \<rparr>
         in if videoElement s1 \<and> hands s1 then emit now HandsSend s1 else s1)
      else s)"

text \<open>
  \<open>initialize\<close>, lines 27-68, once the MediaPipe libraries are loaded; \<open>ctx\<close> tells
  whether the canvas gave a 2D context.
\<close>

definition initialize :: "int \<Rightarrow> bool \<Rightarrow> service \<Rightarrow> service" where
  "initialize now ctx s =
     (let s1 = s\<lparr> videoElement := True, canvasElement := True, canvasCtx := ctx,
                  gestureCallback := True, hands := True \<rparr>;
          s2 = initializeCamera now s1;
          s3 = setupStuckDetection now s2
      in s3\<lparr> isReady := True \<rparr>)"

text \<open>
  The callbacks of the timers (lines 287-291, 226-232, 94, 109-126, 138-141), and a timer
  firing: the timer must be pending and due; a timeout is removed, an interval is
  scheduled again one period later.
\<close>

definition runCallback :: "int \<Rightarrow> callback \<Rightarrow> service \<Rightarrow> service" where
  "runCallback now c s =
     (case c of
        CooldownReset \<Rightarrow> s\<lparr> lastGestureDetected := 0, gestureConfidence := Map.empty \<rparr>
      | NoLandmarksRestart \<Rightarrow> noLandmarksRestart now s
      | InitializeCamera \<Rightarrow> initializeCamera now s
      | StuckCheck \<Rightarrow> stuckCheck now s
      | CalibrationEnd \<Rightarrow> s\<lparr> isCalibrating := False \<rparr>)"

fun takeDue :: "int \<Rightarrow> nat \<Rightarrow> timer list \<Rightarrow> (callback \<times> timer list) option" where
  "takeDue now i [] = None"
| "takeDue now i (t # ts) =
     (if tid t = i then
        (if now < due t then None
         else Some (cb t, (case period t of
                             None \<Rightarrow> ts
                           | Some p \<Rightarrow> t\<lparr> due := now + p \<rparr> # ts)))
      else map_option (\<lambda>(c, ts'). (c, t # ts')) (takeDue now i ts))"

definition fireTimer :: "int \<Rightarrow> nat \<Rightarrow> service \<Rightarrow> service option" where
  "fireTimer now i s =
     (case takeDue now i (timers s) of
        None \<Rightarrow> None
      | Some (c, ts') \<Rightarrow> Some (runCallback now c (s\<lparr> timers := ts' \<rparr>)))"

text \<open>
  Everything that happens to the service is one of these events, each at the time the
  clock shows. A run is a sequence of them; it is \<open>None\<close> when it asks a timer to fire
  that is not pending or not yet due. Nothing else is asked of the times of a run, so
  what is proved of all runs holds in particular of those whose times never decrease;
  the example runs further down are of that kind, and in them every timer that is left
  pending is not yet due at the end.
\<close>

datatype event =
    Initialize bool
  | OnFrame
  | OnResults "landmark list list option"
  | Fire nat
  | StartCalibration
  | StopCamera
  | CameraStartError

definition step :: "int \<Rightarrow> event \<Rightarrow> service \<Rightarrow> service option" where
  "step now ev s =
     (case ev of
        Initialize ctx \<Rightarrow> Some (initialize now ctx s)
      | OnFrame \<Rightarrow> Some (onFrame now s)
      | OnResults r \<Rightarrow> Some (onResults now r s)
      | Fire i \<Rightarrow> fireTimer now i s
      | StartCalibration \<Rightarrow> Some (startCalibration now s)
      | StopCamera \<Rightarrow> Some (stopCamera now s)
      | CameraStartError \<Rightarrow> Some (cameraStartError now s))"

fun run :: "(int \<times> event) list \<Rightarrow> service \<Rightarrow> service option" where
  "run [] s = Some s"
| "run ((now, ev) # rest) s =
     (case step now ev s of None \<Rightarrow> None | Some s' \<Rightarrow> run rest s')"

text \<open>What a run shows to the collaborators.\<close>

definition gestureEvents :: "service \<Rightarrow> (int \<times> nat) list" where
  "gestureEvents s =
     concat (map (\<lambda>(t, e). case e of GestureCallback g \<Rightarrow> [(t, g)] | _ \<Rightarrow> []) (effects s))"

definition sendTimes :: "service \<Rightarrow> int list" where
  "sendTimes s =
     concat (map (\<lambda>(t, e). case e of HandsSend \<Rightarrow> [t] | _ \<Rightarrow> []) (effects s))"

definition cameraStops :: "service \<Rightarrow> int list" where
  "cameraStops s =
     concat (map (\<lambda>(t, e). case e of CameraStop \<Rightarrow> [t] | _ \<Rightarrow> []) (effects s))"

definition pending :: "callback \<Rightarrow> service \<Rightarrow> timer list" where
  "pending c s = filter (\<lambda>t. cb t = c) (timers s)"

text \<open>
  The condition of lines 279-280, read in the state before the frame: the counter of
  \<open>gesture\<close>, once incremented, is at the threshold or above, and \<open>gesture\<close> is not the
  code that fired last.
\<close>

definition firing :: "nat \<Rightarrow> service \<Rightarrow> bool" where
  "firing gesture s =
     (gestureThreshold \<le> streak (gestureConfidence s) gesture + 1
      \<and> lastGestureDetected s \<noteq> gesture)"

text \<open>
  In every state the service reaches, a counter at the threshold or above belongs to the
  code that fired last.
\<close>

definition debouncerInv :: "service \<Rightarrow> bool" where
  "debouncerInv s =
     (\<forall>k. gestureThreshold \<le> streak (gestureConfidence s) k \<longrightarrow> lastGestureDetected s = k)"

text \<open>
  What the limiter keeps true: the forwarding times are at least 67 ms apart (the clock
  counts whole milliseconds, and 67 is the first whole number above 1000/15), and none
  is later than \<open>lastFrameProcessed\<close>.
\<close>

definition limiterInv :: "service \<Rightarrow> bool" where
  "limiterInv s =
     (sorted_wrt (\<lambda>a b. a + 67 \<le> b) (sendTimes s)
      \<and> (\<forall>t \<in> set (sendTimes s). t \<le> lastFrameProcessed s))"

text \<open>
  How the service keeps its timer handles: every pending timer, and every handle the
  service has stored, was issued before \<open>nextTimerId\<close>.
\<close>

definition handleBelow :: "nat option \<Rightarrow> nat \<Rightarrow> bool" where
  "handleBelow handle n = (case handle of None \<Rightarrow> True | Some i \<Rightarrow> i < n)"

definition timersFresh :: "service \<Rightarrow> bool" where
  "timersFresh s =
     (list_all (\<lambda>t. tid t < nextTimerId s) (timers s)
      \<and> handleBelow (noLandmarksTimeout s) (nextTimerId s)
      \<and> handleBelow (stuckDetectionTimer s) (nextTimerId s))"

text \<open>
  A stretch of time in which the pose \<open>g\<close> is held: frames arrive, the pose model reports
  no hand or hands classified as \<open>g\<close> or as nothing, timers fire, the camera may be
  stopped or fail to start, the component may initialise the service again; the one thing
  that does not happen is a call of \<open>startCalibration\<close>. \<open>holdWindow g d es\<close> says that all
  events of \<open>es\<close> are of this kind and happen before the time \<open>d\<close>.
\<close>

definition holdsPose :: "nat \<Rightarrow> landmark list \<Rightarrow> bool" where
  "holdsPose g h =
     (detectImprovedGesture (Some h) = Inr 0 \<or> detectImprovedGesture (Some h) = Inr g)"

definition holdEvent :: "nat \<Rightarrow> event \<Rightarrow> bool" where
  "holdEvent g ev =
     (case ev of
        OnResults r \<Rightarrow> (case r of None \<Rightarrow> True | Some hs \<Rightarrow> list_all (holdsPose g) hs)
      | StartCalibration \<Rightarrow> False
      | _ \<Rightarrow> True)"

definition holdWindow :: "nat \<Rightarrow> int \<Rightarrow> (int \<times> event) list \<Rightarrow> bool" where
  "holdWindow g d es = list_all (\<lambda>(t, ev). t < d \<and> holdEvent g ev) es"

text \<open>
  What stays true during such a stretch after \<open>g\<close> has fired and set the cool-down
  timer \<open>T\<close>: \<open>g\<close> is the last-fired code, no further gesture event has been emitted, the
  service still has its canvas element and its callback and is not calibrating, and \<open>T\<close>
  is pending, the earliest of the cool-downs.
\<close>

definition windowInv :: "nat \<Rightarrow> timer \<Rightarrow> (int \<times> nat) list \<Rightarrow> service \<Rightarrow> bool" where
  "windowInv g T E s =
     (lastGestureDetected s = g \<and> gestureEvents s = E
      \<and> canvasElement s \<and> \<not> isCalibrating s \<and> gestureCallback s
      \<and> T \<in> set (timers s) \<and> tid T < nextTimerId s
      \<and> list_all (\<lambda>t. (cb t = CooldownReset \<longrightarrow> due T \<le> due t) \<and> (tid t = tid T \<longrightarrow> t = T))
           (timers s)
      \<and> noLandmarksTimeout s \<noteq> Some (tid T) \<and> stuckDetectionTimer s \<noteq> Some (tid T))"

definition cooldownTimer :: "nat \<Rightarrow> int \<Rightarrow> timer" where
  "cooldownTimer i t0 = \<lparr> tid = i, due = t0 + 1000, cb = CooldownReset, period = None \<rparr>"

text \<open>
  Example observations for the closed instances below: 21 landmarks of a hand held
  upright, where a raised finger has its tip well above its middle joint (smaller
  \<open>y\<close>) and a folded one has its tip level with it. All coordinates are binary64
  values.
\<close>

definition pt :: "real \<Rightarrow> landmark" where
  "pt v = \<lparr> x = Fin (1 / 2), y = Fin v, z = Fin 0 \<rparr>"

definition poseHand :: "bool \<Rightarrow> bool \<Rightarrow> bool \<Rightarrow> bool \<Rightarrow> bool \<Rightarrow> landmark list" where
  "poseHand thumb index middle ring pinky =
     [pt (7 / 8),
      pt (3 / 4), pt (11 / 16), pt (5 / 8), pt (if thumb then 1 / 2 else 5 / 8),
      pt (5 / 8), pt (1 / 2), pt (3 / 8), pt (if index then 1 / 4 else 1 / 2),
      pt (5 / 8), pt (1 / 2), pt (3 / 8), pt (if middle then 1 / 4 else 1 / 2),
      pt (5 / 8), pt (1 / 2), pt (3 / 8), pt (if ring then 1 / 4 else 1 / 2),
      pt (5 / 8), pt (1 / 2), pt (3 / 8), pt (if pinky then 1 / 4 else 1 / 2)]"

text \<open>
  An observation at the edge of the threshold: the hand with all fingers folded, except
  that the middle joint of the index finger is at \<open>y = 0.75\<close> and its tip at the largest
  binary64 value below \<open>0.75 - 0.07\<close>, which is \<open>6124895493223874 / 2^53\<close>.
\<close>

definition edgeTip :: landmark where
  "edgeTip = \<lparr> x = Fin (1 / 2), y = Fin (6124895493223874 / 2 ^ 53), z = Fin 0 \<rparr>"

definition edgeHand :: "landmark list" where
  "edgeHand =
     [pt (7 / 8),
      pt (3 / 4), pt (11 / 16), pt (5 / 8), pt (5 / 8),
      pt (7 / 8), pt (3 / 4), pt (3 / 4), edgeTip,
      pt (5 / 8), pt (1 / 2), pt (3 / 8), pt (1 / 2),
      pt (5 / 8), pt (1 / 2), pt (3 / 8), pt (1 / 2),
      pt (5 / 8), pt (1 / 2), pt (3 / 8), pt (1 / 2)]"

definition noFlags :: fingerFlags where
  "noFlags = \<lparr> isThumbUp = False, isIndexExtended = False, isMiddleExtended = False,
               isRingExtended = False, isPinkyExtended = False \<rparr>"

text \<open>
  A service that has been initialised at time 0 and has finished a calibration started at
  time 0, the liveness check having run at 2000 and 4000; and the same service after two
  frames showing index and middle finger.
\<close>

definition readyTrace :: "(int \<times> event) list" where
  "readyTrace =
     [(0, Initialize True), (0, StartCalibration), (2000, Fire 1), (4000, Fire 1),
      (5000, Fire 2)]"

definition readyService :: service where
  "readyService =
     \<lparr> hands = True, camera = True, canvasCtx = True, videoElement = True,
       canvasElement = True, gestureCallback = True, isCalibrating = False,
       isReady = True, calibrationData = None, lastGestureDetected = 0,
       gestureConfidence = Map.empty, cameraStartAttempts = 1, lastFrameProcessed = 0,
       lastLandmarkTime = 0, stuckDetectionTimer = Some 1, noLandmarksTimeout = None,
       timers = [\<lparr> tid = 1, due = 6000, cb = StuckCheck, period = Some 2000 \<rparr>],
       nextTimerId = 3, effects = [(0, CameraStart)] \<rparr>"

definition twoFingers :: "landmark list" where
  "twoFingers = poseHand False True True False False"

definition threeFingers :: "landmark list" where
  "threeFingers = poseHand False True True True False"

definition fist :: "landmark list" where
  "fist = poseHand False False False False False"

definition heldTwice :: service where
  "heldTwice =
     onResults 5200 (Some [twoFingers]) (onResults 5100 (Some [twoFingers]) readyService)"

text \<open>
  A stretch in which two fingers are held after they fired at time 5300, the component
  initialising the service again at time 5450. And a service
  in which three fingers fired at time 5300 and two fingers were then shown twice, with
  the stretch that follows when two fingers fire at time 5700 and stay held.
\<close>

definition heldWindow :: "(int \<times> event) list" where
  "heldWindow =
     [(5400, OnFrame), (5400, OnResults (Some [twoFingers])), (5450, Initialize True),
      (5500, OnResults (Some [fist])), (6000, Fire 1),
      (6200, OnResults (Some [twoFingers]))]"

definition staleTrace :: "(int \<times> event) list" where
  "staleTrace =
     readyTrace @
     [(5100, OnResults (Some [threeFingers])), (5200, OnResults (Some [threeFingers])),
      (5300, OnResults (Some [threeFingers])),
      (5500, OnResults (Some [twoFingers])), (5600, OnResults (Some [twoFingers]))]"

definition staleCooldown :: service where
  "staleCooldown =
     onResults 5600 (Some [twoFingers]) (onResults 5500 (Some [twoFingers])
       (onResults 5300 (Some [threeFingers]) (onResults 5200 (Some [threeFingers])
         (onResults 5100 (Some [threeFingers]) readyService))))"

definition staleWindow :: "(int \<times> event) list" where
  "staleWindow =
     [(6000, Fire 1), (6300, Fire 3), (6400, OnResults (Some [twoFingers])),
      (6500, OnResults (Some [twoFingers])), (6600, OnResults (Some [twoFingers]))]"

text \<open>
  A service initialised at time 0 whose pose model reports, twice a second for six
  seconds, that no hand is in the frame; the liveness check runs every two seconds. A
  service whose pose model reports a hand once, at time 1000, and from then on, twice a
  second until time 8000, that no hand is in the frame. And a service whose pose model
  reports a hand once, at time 1000, and then nothing at all.
\<close>

definition zeroHandsTrace :: "(int \<times> event) list" where
  "zeroHandsTrace =
     [(0, Initialize True), (500, OnFrame), (500, OnResults (Some [])), (1000, OnFrame),
      (1000, OnResults (Some [])), (1500, OnFrame), (1500, OnResults (Some [])),
      (2000, Fire 1), (2000, OnFrame), (2000, OnResults (Some [])), (2500, OnFrame),
      (2500, OnResults (Some [])), (3000, OnFrame), (3000, OnResults (Some [])),
      (3500, OnFrame), (3500, OnResults (Some [])), (4000, Fire 1), (4000, OnFrame),
      (4000, OnResults (Some [])), (4500, OnFrame), (4500, OnResults (Some [])),
      (5000, OnFrame), (5000, OnResults (Some [])), (5500, OnFrame),
      (5500, OnResults (Some [])), (6000, Fire 1), (6000, OnFrame),
      (6000, OnResults (Some []))]"

definition emptyResultsTrace :: "(int \<times> event) list" where
  "emptyResultsTrace =
     [(0, Initialize True), (1000, OnFrame), (1000, OnResults (Some [twoFingers])),
      (1500, OnFrame), (1500, OnResults (Some [])), (2000, Fire 1), (2000, OnFrame),
      (2000, OnResults (Some [])), (2500, OnFrame), (2500, OnResults (Some [])),
      (3000, OnFrame), (3000, OnResults (Some [])), (3500, OnFrame),
      (3500, OnResults (Some [])), (4000, Fire 1), (4000, OnFrame),
      (4000, OnResults (Some [])), (4500, OnFrame), (4500, OnResults (Some [])),
      (5000, OnFrame), (5000, OnResults (Some [])), (5500, OnFrame),
      (5500, OnResults (Some [])), (6000, Fire 1), (6000, OnFrame),
      (6000, OnResults (Some [])), (6500, OnFrame), (6500, OnResults (Some [])),
      (7000, OnFrame), (7000, OnResults (Some [])), (7500, OnFrame),
      (7500, OnResults (Some [])), (8000, Fire 1), (8000, OnFrame),
      (8000, OnResults (Some []))]"

definition silentTrace :: "(int \<times> event) list" where
  "silentTrace =
     [(0, Initialize True), (1000, OnFrame), (1000, OnResults (Some [twoFingers])),
      (2000, Fire 1), (4000, Fire 1), (6000, Fire 1)]"

section \<open>The gate in front of the game logic\<close>
















section \<open>Properties of the rounding\<close>

lemma roundAt_mono: "r \<le> s \<Longrightarrow> roundAt r f \<le> roundAt s f"
  by (auto simp add: roundAt_def)

lemma roundAt_bounds: "f \<le> roundAt r f \<and> roundAt r f \<le> f + 1"
  by (simp add: roundAt_def)

lemma roundHalfEven_mono:
  assumes "r \<le> s"
  shows "roundHalfEven r \<le> roundHalfEven s"
proof (cases "\<lfloor>r\<rfloor> = \<lfloor>s\<rfloor>")
  case True
  with roundAt_mono [OF assms] show ?thesis by (simp add: roundHalfEven_def)
next
  case False
  with assms have "\<lfloor>r\<rfloor> + 1 \<le> \<lfloor>s\<rfloor>" using floor_mono [OF assms] by linarith
  with roundAt_bounds [of "\<lfloor>r\<rfloor>" r] roundAt_bounds [of "\<lfloor>s\<rfloor>" s]
  show ?thesis by (simp add: roundHalfEven_def)
qed

lemma roundHalfEven_of_int: "roundHalfEven (of_int n) = n"
  by (simp add: roundHalfEven_def roundAt_def)

lemma roundHalfEven_minus: "roundHalfEven (- r) = - roundHalfEven r"
proof (cases "r = of_int \<lfloor>r\<rfloor>")
  case True
  then obtain n :: int where "r = of_int n" ..
  then have "- r = of_int (- n)" by simp
  then show ?thesis using \<open>r = of_int n\<close> by (simp only: roundHalfEven_of_int)
next
  case False
  then have fl: "\<lfloor>- r\<rfloor> = - \<lfloor>r\<rfloor> - 1"
    by (metis ceiling_altdef ceiling_def diff_minus_eq_add minus_add_cancel minus_diff_eq
          uminus_add_conv_diff)
  have "of_int \<lfloor>r\<rfloor> < r" using False by (metis of_int_floor_le order_le_less)
  moreover have "r < of_int \<lfloor>r\<rfloor> + 1" by linarith
  ultimately show ?thesis
    unfolding roundHalfEven_def roundAt_def fl
    by (auto simp add: algebra_simps)
qed

lemma lowExp_char:
  "a < 1 \<Longrightarrow>
   - int n - 1 \<le> lowExp n a \<and> lowExp n a \<le> - 1
   \<and> a < 2 powi (lowExp n a + 1)
   \<and> (2 powi (lowExp n a) \<le> a \<or> lowExp n a = - int n - 1)"
proof (induction n arbitrary: a)
  case 0
  then show ?case by simp
next
  case (Suc n)
  show ?case
  proof (cases "1 \<le> 2 * a")
    case True
    with Suc.prems show ?thesis by (simp add: power_int_minus)
  next
    case False
    then have "2 * a < 1" by simp
    from Suc.IH [OF this] False show ?thesis
      by (auto simp add: power_int_diff power_int_add)
  qed
qed

lemma highExp_char:
  "1 \<le> a \<Longrightarrow>
   0 \<le> highExp n a \<and> highExp n a \<le> int n
   \<and> 2 powi (highExp n a) \<le> a
   \<and> (a < 2 powi (highExp n a + 1) \<or> highExp n a = int n)"
proof (induction n arbitrary: a)
  case 0
  then show ?case by simp
next
  case (Suc n)
  show ?case
  proof (cases "a < 2")
    case True
    with Suc.prems show ?thesis by simp
  next
    case False
    then have "1 \<le> a / 2" by simp
    from Suc.IH [OF this] False show ?thesis
      by (auto simp add: power_int_add)
  qed
qed

lemma expo_char:
  "- 1022 \<le> expo a \<and> expo a \<le> 1023
   \<and> (2 powi (expo a) \<le> a \<or> expo a = - 1022)
   \<and> (a < 2 powi (expo a + 1) \<or> expo a = 1023)"
proof (cases "a < 1")
  case True
  from lowExp_char [OF True, of 1021] True show ?thesis
    by (auto simp add: expo_def)
next
  case False
  then have "1 \<le> a" by simp
  from highExp_char [OF this, of 1023] False show ?thesis
    by (auto simp add: expo_def)
qed


lemma expo_mono:
  assumes "a \<le> b"
  shows "expo a \<le> expo b"
proof (rule ccontr)
  assume "\<not> expo a \<le> expo b"
  then have lt: "expo b < expo a" by simp
  with expo_char [of a] expo_char [of b]
  have "2 powi (expo a) \<le> a" "b < 2 powi (expo b + 1)" by auto
  moreover from lt have "(2::real) powi (expo b + 1) \<le> 2 powi (expo a)"
    by (intro power_int_increasing) simp_all
  ultimately show False using assms by linarith
qed

lemma quantum_pos: "0 < quantum r"
  by (simp add: quantum_def)

lemma quantum_minus: "quantum (- r) = quantum r"
  by (simp add: quantum_def)

lemma quantum_abs: "quantum \<bar>r\<bar> = quantum r"
  by (simp add: quantum_def)

lemma mant_minus: "mant (- r) = - mant r"
  by (simp add: mant_def quantum_minus roundHalfEven_minus)

lemma rnd_minus: "rnd (- r) = - rnd r"
  by (simp add: rnd_def mant_minus quantum_minus)

lemma mant_nonneg: "0 \<le> r \<Longrightarrow> 0 \<le> mant r"
proof -
  assume "0 \<le> r"
  then have "0 \<le> r / quantum r" using quantum_pos [of r] by simp
  from roundHalfEven_mono [OF this] show ?thesis
    using roundHalfEven_of_int [of 0] by (simp add: mant_def)
qed

lemma rnd_nonneg: "0 \<le> r \<Longrightarrow> 0 \<le> rnd r"
  using mant_nonneg [of r] quantum_pos [of r] by (simp add: rnd_def)

lemma pow52: "(2::real) powi e = 2 ^ 52 * 2 powi (e - 52)"
proof -
  have "(2::real) powi e = 2 powi (52 + (e - 52))" by simp
  also have "\<dots> = 2 powi 52 * 2 powi (e - 52)"
    by (subst power_int_add) simp_all
  finally show ?thesis by simp
qed

lemma rnd_lower:
  assumes "0 \<le> r" "2 powi (expo r) \<le> r"
  shows "2 powi (expo r) \<le> rnd r"
proof -
  have q: "quantum r = 2 powi (expo r - 52)" using assms(1) by (simp add: quantum_def)
  have "of_int (2 ^ 52) \<le> r / quantum r"
    using assms(2) quantum_pos [of r] pow52 [of "expo r"]
    by (simp add: q pos_le_divide_eq)
  from roundHalfEven_mono [OF this] have "2 ^ 52 \<le> mant r"
    by (simp only: roundHalfEven_of_int mant_def)
  then have "(2::real) ^ 52 \<le> of_int (mant r)" by (metis of_int_le_iff of_int_numeral of_int_power)
  then have "2 ^ 52 * quantum r \<le> of_int (mant r) * quantum r"
    using quantum_pos [of r] by simp
  then show ?thesis using pow52 [of "expo r"] by (simp add: rnd_def q)
qed

lemma rnd_upper:
  assumes "0 \<le> r" "r < 2 powi (expo r + 1)"
  shows "rnd r \<le> 2 powi (expo r + 1)"
proof -
  have q: "quantum r = 2 powi (expo r - 52)" using assms(1) by (simp add: quantum_def)
  have "expo r + 1 = 53 + (expo r - 52)" by simp
  then have "(2::real) powi (expo r + 1) = 2 powi (53 + (expo r - 52))" by (rule arg_cong)
  also have "\<dots> = 2 powi 53 * 2 powi (expo r - 52)"
    by (subst power_int_add) simp_all
  finally have p: "(2::real) powi (expo r + 1) = 2 ^ 53 * quantum r"
    by (simp add: q)
  have "r / quantum r \<le> of_int (2 ^ 53)"
    using assms(2) quantum_pos [of r] by (simp add: p pos_divide_le_eq)
  from roundHalfEven_mono [OF this] have "mant r \<le> 2 ^ 53"
    by (simp only: roundHalfEven_of_int mant_def)
  then have "of_int (mant r) \<le> (2::real) ^ 53" by (metis of_int_le_iff of_int_numeral of_int_power)
  then have "of_int (mant r) * quantum r \<le> 2 ^ 53 * quantum r"
    using quantum_pos [of r] by simp
  then show ?thesis by (simp add: rnd_def p)
qed

lemma rnd_mono_nonneg:
  assumes "0 \<le> r" "r \<le> s"
  shows "rnd r \<le> rnd s"
proof (cases "expo r = expo s")
  case True
  then have q: "quantum r = quantum s" using assms by (simp add: quantum_def)
  have "r / quantum s \<le> s / quantum s"
    using assms(2) quantum_pos [of s] by (simp add: divide_right_mono)
  from roundHalfEven_mono [OF this] have "mant r \<le> mant s" by (simp add: mant_def q)
  then show ?thesis using quantum_pos [of s] by (simp add: rnd_def q)
next
  case False
  with expo_mono [OF assms(2)] have lt: "expo r < expo s" by simp
  from lt expo_char [of r] expo_char [of s]
  have r: "r < 2 powi (expo r + 1)" and s: "2 powi (expo s) \<le> s" by auto
  have "rnd r \<le> 2 powi (expo r + 1)" using assms(1) r by (rule rnd_upper)
  also have "\<dots> \<le> 2 powi (expo s)"
    using lt by (intro power_int_increasing) simp_all
  also have "\<dots> \<le> rnd s"
    using assms s by (intro rnd_lower) simp_all
  finally show ?thesis .
qed

lemma rnd_mono:
  assumes "r \<le> s"
  shows "rnd r \<le> rnd s"
proof (cases "0 \<le> r")
  case True
  then show ?thesis using assms by (rule rnd_mono_nonneg)
next
  case neg: False
  show ?thesis
  proof (cases "0 \<le> s")
    case True
    have "rnd r = - rnd (- r)" by (simp add: rnd_minus)
    also have "\<dots> \<le> 0" using rnd_nonneg [of "- r"] neg by simp
    also have "\<dots> \<le> rnd s" using True by (rule rnd_nonneg)
    finally show ?thesis .
  next
    case False
    then have "0 \<le> - s" "- s \<le> - r" using assms by simp_all
    from rnd_mono_nonneg [OF this] show ?thesis by (simp add: rnd_minus)
  qed
qed

lemma rnd_abs: "rnd \<bar>r\<bar> = \<bar>rnd r\<bar>"
proof (cases "0 \<le> r")
  case True
  then show ?thesis using rnd_nonneg [of r] by simp
next
  case False
  then have "0 \<le> - r" by simp
  from rnd_nonneg [OF this] False show ?thesis by (simp add: rnd_minus)
qed

lemma rnd_zero: "rnd 0 = 0"
  using roundHalfEven_of_int [of 0] by (simp add: rnd_def mant_def)

lemma rnd_small:
  assumes "expo \<bar>r\<bar> < 1023"
  shows "\<bar>rnd r\<bar> < 2 ^ 1024"
proof -
  from assms expo_char [of "\<bar>r\<bar>"] have "\<bar>r\<bar> < 2 powi (expo \<bar>r\<bar> + 1)" by auto
  then have "rnd \<bar>r\<bar> \<le> 2 powi (expo \<bar>r\<bar> + 1)" by (intro rnd_upper) simp_all
  also have "\<dots> \<le> 2 powi 1023" using assms by (intro power_int_increasing) simp_all
  also have "\<dots> < (2::real) ^ 1024" by simp
  finally show ?thesis by (simp add: rnd_abs)
qed

lemma fromReal_cases:
  "(fromReal r = Fin (rnd r) \<and> \<bar>rnd r\<bar> < 2 ^ 1024)
   \<or> (fromReal r = PInf \<and> 0 < r \<and> 2 ^ 1024 \<le> rnd r)
   \<or> (fromReal r = NInf \<and> r < 0 \<and> rnd r \<le> - (2 ^ 1024))"
proof (cases "r = 0")
  case True
  then show ?thesis by (simp add: fromReal_def rnd_zero)
next
  case False
  have eq: "fromReal r = pack r (expo \<bar>r\<bar>) (quantum r) (mant r)"
    using False by (simp add: fromReal_def fromRealAt_def packAt_def quantum_def mant_def)
  have split: "(2::real) ^ 1024 = 2 ^ 53 * 2 ^ 971"
    by (simp only: power_add [symmetric]) simp
  show ?thesis
  proof (cases "expo \<bar>r\<bar> = 1023 \<and> 2 ^ 53 \<le> \<bar>mant r\<bar>")
    case no: False
    have "\<bar>rnd r\<bar> < 2 ^ 1024"
    proof (cases "expo \<bar>r\<bar> = 1023")
      case True
      then have q: "quantum r = 2 ^ 971" by (simp add: quantum_def)
      from True no have "\<bar>mant r\<bar> < 2 ^ 53" by simp
      then have "\<bar>of_int (mant r)\<bar> < (2::real) ^ 53"
        by (metis of_int_abs of_int_less_iff of_int_numeral of_int_power)
      then have "\<bar>of_int (mant r)\<bar> * (2::real) ^ 971 < 2 ^ 53 * 2 ^ 971" by simp
      then show ?thesis by (simp add: rnd_def q abs_mult split)
    next
      case False
      with expo_char [of "\<bar>r\<bar>"] have "expo \<bar>r\<bar> < 1023" by simp
      then show ?thesis by (rule rnd_small)
    qed
    with no show ?thesis unfolding eq by (auto simp add: pack_def rnd_def)
  next
    case True
    then have q: "quantum r = 2 ^ 971" by (simp add: quantum_def)
    have big: "(2::real) ^ 1024 \<le> \<bar>of_int (mant r)\<bar> * 2 ^ 971"
    proof -
      from True have "(2::real) ^ 53 \<le> \<bar>of_int (mant r)\<bar>"
        by (metis of_int_abs of_int_le_iff of_int_numeral of_int_power)
      then have "(2::real) ^ 53 * 2 ^ 971 \<le> \<bar>of_int (mant r)\<bar> * 2 ^ 971" by simp
      then show ?thesis by (simp add: split)
    qed
    show ?thesis
    proof (cases "0 < r")
      case pos: True
      then have "0 \<le> mant r" using mant_nonneg [of r] by simp
      with big have "(2::real) ^ 1024 \<le> rnd r" by (simp add: rnd_def q)
      with True pos show ?thesis unfolding eq by (simp add: pack_def)
    next
      case neg: False
      with False have r: "r < 0" by simp
      then have "0 \<le> mant (- r)" using mant_nonneg [of "- r"] by simp
      then have "mant r \<le> 0" by (simp add: mant_minus)
      with big have "rnd r \<le> - ((2::real) ^ 1024)" by (simp add: rnd_def q)
      with True r show ?thesis unfolding eq by (simp add: pack_def)
    qed
  qed
qed

lemma representable:
  assumes "fromReal a = Fin a"
  shows "rnd a = a" and "\<bar>a\<bar> < 2 ^ 1024"
  using fromReal_cases [of a] assms by auto

text \<open>
  What a comparison with a rounded difference says about the exact difference: rounding
  is monotone and leaves binary64 values as they are.
\<close>

lemma dlt_dsub_exact:
  assumes "dlt (Fin a) (dsub (Fin b) (Fin c))" and "fromReal a = Fin a"
  shows "a < b - c"
proof (rule ccontr)
  assume "\<not> a < b - c"
  then have "b - c \<le> a" by simp
  from rnd_mono [OF this] have le: "rnd (b - c) \<le> a"
    using representable(1) [OF assms(2)] by simp
  from fromReal_cases [of "b - c"] show False
  proof (elim disjE conjE)
    assume "fromReal (b - c) = Fin (rnd (b - c))"
    with assms(1) le show False by (simp add: dsub_def dlt_def)
  next
    assume "2 ^ 1024 \<le> rnd (b - c)"
    with le representable(2) [OF assms(2)] show False by simp
  next
    assume "fromReal (b - c) = NInf"
    with assms(1) show False by (simp add: dsub_def dlt_def)
  qed
qed

lemma dlt_dabs_dsub_exact:
  assumes "dlt (dabs (dsub (Fin u) (Fin v))) (Fin (rnd c))"
  shows "\<bar>u - v\<bar> < c"
proof (rule ccontr)
  assume "\<not> \<bar>u - v\<bar> < c"
  then have "c \<le> \<bar>u - v\<bar>" by simp
  from rnd_mono [OF this] have le: "rnd c \<le> \<bar>rnd (u - v)\<bar>"
    by (simp add: rnd_abs)
  from fromReal_cases [of "u - v"] show False
  proof (elim disjE conjE)
    assume "fromReal (u - v) = Fin (rnd (u - v))"
    with assms le show False by (simp add: dsub_def dlt_def dabs_def)
  next
    assume "fromReal (u - v) = PInf"
    with assms show False by (simp add: dsub_def dlt_def dabs_def)
  next
    assume "fromReal (u - v) = NInf"
    with assms show False by (simp add: dsub_def dlt_def dabs_def)
  qed
qed

text \<open>The three decimal literals of \<open>isFingerExtended\<close> as binary64 values.\<close>

lemma literal_7_100: "literal (7 / 100) = Fin (1261007895663739 / 2 ^ 54)"
  by code_simp

lemma literal_5_100: "literal (5 / 100) = Fin (3602879701896397 / 2 ^ 56)"
  by code_simp

lemma literal_1_10: "literal (1 / 10) = Fin (3602879701896397 / 2 ^ 55)"
  by code_simp

lemma literals_representable:
  "fromReal (1261007895663739 / 2 ^ 54) = Fin (1261007895663739 / 2 ^ 54)"
  "fromReal (3602879701896397 / 2 ^ 56) = Fin (3602879701896397 / 2 ^ 56)"
  "fromReal (3602879701896397 / 2 ^ 55) = Fin (3602879701896397 / 2 ^ 55)"
  by code_simp+

lemma rnd_literals:
  "rnd (7 / 100) = 1261007895663739 / 2 ^ 54"
  "rnd (5 / 100) = 3602879701896397 / 2 ^ 56"
  "rnd (1 / 10) = 3602879701896397 / 2 ^ 55"
  by code_simp+

section \<open>Properties of the classifier\<close>

lemma extendedFingerCount_nonThumbCount: "extendedFingerCount f = nonThumbCount f"
  by (simp add: extendedFingerCount_def nonThumbCount_def)

lemma fingerFlagsOf_full:
  assumes "21 \<le> length lms"
  shows "fingerFlagsOf lms =
     Inr \<lparr> isThumbUp = isFingerExtended (lms ! 4) (lms ! 3) (lms ! 2) (lms ! 0) True,
           isIndexExtended = isFingerExtended (lms ! 8) (lms ! 6) (lms ! 5) (lms ! 0) False,
           isMiddleExtended = isFingerExtended (lms ! 12) (lms ! 10) (lms ! 9) (lms ! 0) False,
           isRingExtended = isFingerExtended (lms ! 16) (lms ! 14) (lms ! 13) (lms ! 0) False,
           isPinkyExtended = isFingerExtended (lms ! 20) (lms ! 18) (lms ! 17) (lms ! 0) False \<rparr>"
  using assms by (auto simp add: fingerFlagsOf_def landmarkAt_def bnd_def)

lemma detectImprovedGesture_total: "\<exists>g. detectImprovedGesture landmarks = Inr g"
proof (cases landmarks)
  case None
  then show ?thesis by (simp add: detectImprovedGesture_def)
next
  case (Some lms)
  show ?thesis
  proof (cases "length lms < 21")
    case True
    with Some show ?thesis by (simp add: detectImprovedGesture_def)
  next
    case False
    then have "21 \<le> length lms" by simp
    from fingerFlagsOf_full [OF this] Some False show ?thesis
      by (simp add: detectImprovedGesture_def bnd_def)
  qed
qed

lemma isFingerExtended_pt:
  "isFingerExtended (pt (1 / 4)) (pt (1 / 2)) (pt (5 / 8)) (pt (7 / 8)) False"
  "\<not> isFingerExtended (pt (1 / 2)) (pt (1 / 2)) (pt (5 / 8)) (pt (7 / 8)) False"
  "isFingerExtended (pt (1 / 2)) (pt (5 / 8)) (pt (11 / 16)) (pt (7 / 8)) True"
  "\<not> isFingerExtended (pt (5 / 8)) (pt (5 / 8)) (pt (11 / 16)) (pt (7 / 8)) True"
  by code_simp+

lemma edge_representable:
  "fromReal (6124895493223874 / 2 ^ 53) = Fin (6124895493223874 / 2 ^ 53)"
  "fromReal (3 / 4) = Fin (3 / 4)"
  "fromReal (1 / 2) = Fin (1 / 2)"
  "fromReal (1 / 4) = Fin (1 / 4)"
  "fromReal (5 / 8) = Fin (5 / 8)"
  by code_simp+

text \<open>
  A flag that is set bounds the exact differences: with a tip whose \<open>y\<close> is a binary64
  number, rounding the difference never lets a tip pass that is not above the joint by
  more than the threshold, nor a depth difference that is not below it.
\<close>

lemma thresholds_above_decimal:
  "(7 / 100 :: real) < 1261007895663739 / 2 ^ 54"
  "(5 / 100 :: real) < 3602879701896397 / 2 ^ 56"
  "(1 / 10 :: real) < 3602879701896397 / 2 ^ 55"
  by simp_all

lemma isFingerExtended_exact:
  assumes "isFingerExtended tip pip mcp wrist False"
    and "y tip = Fin a" "y pip = Fin b" "z tip = Fin u" "z pip = Fin v"
    and "fromReal a = Fin a"
  shows "a < b - 1261007895663739 / 2 ^ 54" and "a < b - 7 / 100" and "\<bar>u - v\<bar> < 7 / 100"
proof -
  from assms(1) have c: "dlt (Fin a) (dsub (Fin b) (Fin (1261007895663739 / 2 ^ 54)))"
    and d: "dlt (dabs (dsub (Fin u) (Fin v))) (Fin (1261007895663739 / 2 ^ 54))"
    unfolding isFingerExtended_def Let_def literal_7_100 assms(2-5) by simp_all
  from dlt_dsub_exact [OF c assms(6)] show 1: "a < b - 1261007895663739 / 2 ^ 54" .
  from 1 thresholds_above_decimal(1) show "a < b - 7 / 100" by linarith
  from d have "dlt (dabs (dsub (Fin u) (Fin v))) (Fin (rnd (7 / 100)))"
    by (simp only: rnd_literals)
  then show "\<bar>u - v\<bar> < 7 / 100" by (rule dlt_dabs_dsub_exact)
qed

lemma isThumbExtended_exact:
  assumes "isFingerExtended tip pip mcp wrist True"
    and "y tip = Fin a" "y pip = Fin b" "z tip = Fin u" "z pip = Fin v"
    and "fromReal a = Fin a"
  shows "a < b - 3602879701896397 / 2 ^ 56" and "a < b - 5 / 100" and "\<bar>u - v\<bar> < 1 / 10"
proof -
  from assms(1) have c: "dlt (Fin a) (dsub (Fin b) (Fin (3602879701896397 / 2 ^ 56)))"
    and d: "dlt (dabs (dsub (Fin u) (Fin v))) (Fin (3602879701896397 / 2 ^ 55))"
    unfolding isFingerExtended_def Let_def literal_5_100 literal_1_10 assms(2-5) by simp_all
  from dlt_dsub_exact [OF c assms(6)] show 1: "a < b - 3602879701896397 / 2 ^ 56" .
  from 1 thresholds_above_decimal(2) show "a < b - 5 / 100" by linarith
  from d have "dlt (dabs (dsub (Fin u) (Fin v))) (Fin (rnd (1 / 10)))"
    by (simp only: rnd_literals)
  then show "\<bar>u - v\<bar> < 1 / 10" by (rule dlt_dabs_dsub_exact)
qed

lemma length_edgeHand: "length edgeHand = 21"
  by (simp add: edgeHand_def)

lemma fingerFlagsOf_edgeHand: "fingerFlagsOf edgeHand = Inr noFlags"
  by code_simp

lemma edgeHand_index:
  "y (edgeHand ! 8) = Fin (6124895493223874 / 2 ^ 53)"
  "y (edgeHand ! 6) = Fin (3 / 4)"
  "z (edgeHand ! 8) = Fin 0"
  "z (edgeHand ! 6) = Fin 0"
  by (simp_all add: edgeHand_def edgeTip_def pt_def)

lemma detect_edgeHand: "detectImprovedGesture (Some edgeHand) = Inr 0"
  by (simp add: detectImprovedGesture_def length_edgeHand fingerFlagsOf_edgeHand bnd_def
        gestureOfFlags_def extendedFingerCount_def noFlags_def)

lemma twoFingers_comparisons:
  "dlt (y (poseHand False True True False False ! 8))
          (dsub (y (poseHand False True True False False ! 6)) (literal (7 / 100)))"
  "dlt (dabs (dsub (z (poseHand False True True False False ! 8))
                      (z (poseHand False True True False False ! 6)))) (literal (7 / 100))"
  "\<not> dlt (y (poseHand False True True False False ! 16))
            (dsub (y (poseHand False True True False False ! 14)) (literal (7 / 100)))"
  by code_simp+

lemma length_poseHand: "length (poseHand t i m r p) = 21"
  by (simp add: poseHand_def)

lemma fingerFlagsOf_poseHand:
  "fingerFlagsOf (poseHand t i m r p) =
     Inr \<lparr> isThumbUp = t, isIndexExtended = i, isMiddleExtended = m,
           isRingExtended = r, isPinkyExtended = p \<rparr>"
proof -
  have "21 \<le> length (poseHand t i m r p)"
    by (simp add: length_poseHand)
  from fingerFlagsOf_full [OF this] show ?thesis
    by (simp add: poseHand_def isFingerExtended_pt)
qed

lemma detectImprovedGesture_poseHand:
  "detectImprovedGesture (Some (poseHand t i m r p)) =
     Inr (gestureOfFlags \<lparr> isThumbUp = t, isIndexExtended = i, isMiddleExtended = m,
                          isRingExtended = r, isPinkyExtended = p \<rparr>)"
  by (simp add: detectImprovedGesture_def length_poseHand fingerFlagsOf_poseHand bnd_def)

section \<open>Properties of the service\<close>

subsection \<open>One frame through \<open>onResults\<close>\<close>

lemma collectCalibrationData_Inr:
  "\<exists>c. collectCalibrationData lms s = Inr (s\<lparr> calibrationData := c \<rparr>)"
proof (cases "length lms < 21")
  case True
  then have "collectCalibrationData lms s = Inr (s\<lparr> calibrationData := calibrationData s \<rparr>)"
    by (simp add: collectCalibrationData_def)
  then show ?thesis by blast
next
  case False
  then show ?thesis
    by (auto simp add: collectCalibrationData_def landmarkAt_def bnd_def)
qed

lemma handleLandmarks_calibrating:
  "isCalibrating s \<Longrightarrow> \<exists>c. handleLandmarks now lms s = Inr (s\<lparr> calibrationData := c \<rparr>)"
  using collectCalibrationData_Inr [of lms s] by (simp add: handleLandmarks_def)

lemma handleLandmarks_detecting:
  "\<not> isCalibrating s \<Longrightarrow> gestureCallback s \<Longrightarrow> detectImprovedGesture (Some lms) = Inr g \<Longrightarrow>
   handleLandmarks now lms s = Inr (if g > 0 then processGestureWithConfidence now g s else s)"
  by (simp add: handleLandmarks_def bnd_def)

lemma handleLandmarks_zero:
  assumes "detectImprovedGesture (Some lms) = Inr 0"
  shows "\<exists>c. handleLandmarks now lms s = Inr (s\<lparr> calibrationData := c \<rparr>)"
proof (cases "isCalibrating s")
  case True
  then show ?thesis by (rule handleLandmarks_calibrating)
next
  case False
  have "handleLandmarks now lms s = Inr (s\<lparr> calibrationData := calibrationData s \<rparr>)"
    using False assms by (simp add: handleLandmarks_def bnd_def)
  then show ?thesis by blast
qed

lemma forEachHand_zero:
  assumes "\<forall>h \<in> set hs. detectImprovedGesture (Some h) = Inr 0"
  shows "\<exists>c. forEachHand now hs s = s\<lparr> calibrationData := c \<rparr>"
  using assms
proof (induction hs arbitrary: s)
  case Nil
  have "forEachHand now [] s = s\<lparr> calibrationData := calibrationData s \<rparr>" by simp
  then show ?case by blast
next
  case (Cons h hs)
  from Cons.prems have "detectImprovedGesture (Some h) = Inr 0" by simp
  from handleLandmarks_zero [OF this] obtain c
    where c: "handleLandmarks now h s = Inr (s\<lparr> calibrationData := c \<rparr>)" by blast
  from Cons.prems have "\<forall>h \<in> set hs. detectImprovedGesture (Some h) = Inr 0" by simp
  from Cons.IH [OF this] obtain c'
    where "forEachHand now hs (s\<lparr> calibrationData := c \<rparr>) = s\<lparr> calibrationData := c \<rparr>\<lparr> calibrationData := c' \<rparr>"
    by blast
  with c have "forEachHand now (h # hs) s = s\<lparr> calibrationData := c' \<rparr>" by simp
  then show ?case by blast
qed

lemma debouncer_clearNoLandmarksTimeout:
  "gestureConfidence (clearNoLandmarksTimeout s) = gestureConfidence s"
  "lastGestureDetected (clearNoLandmarksTimeout s) = lastGestureDetected s"
  "effects (clearNoLandmarksTimeout s) = effects s"
  by (simp_all add: clearNoLandmarksTimeout_def clearTimeout_def split: option.splits)

lemma streak_resetOthers_same: "streak (resetOthers g conf) g = streak conf g"
  by (simp add: streak_def resetOthers_def)

lemma pgc_confidence:
  "gestureConfidence (processGestureWithConfidence now g s) =
     (resetOthers g (gestureConfidence s))(g \<mapsto> streak (gestureConfidence s) g + 1)"
  by (simp add: processGestureWithConfidence_def Let_def streak_resetOthers_same emit_def
        setTimeout_def)

lemma pgc_last:
  "lastGestureDetected (processGestureWithConfidence now g s) =
     (if firing g s then g else lastGestureDetected s)"
  by (simp add: processGestureWithConfidence_def Let_def streak_resetOthers_same emit_def
        setTimeout_def firing_def streak_def resetOthers_def)

lemma pgc_effects:
  "effects (processGestureWithConfidence now g s) =
     effects s @ (if firing g s \<and> gestureCallback s then [(now, GestureCallback g)] else [])"
  by (simp add: processGestureWithConfidence_def Let_def streak_resetOthers_same emit_def
        setTimeout_def firing_def streak_def resetOthers_def)

lemma pgc_timers:
  "timers (processGestureWithConfidence now g s) =
     timers s @ (if firing g s
                 then [\<lparr> tid = nextTimerId s, due = now + 1000, cb = CooldownReset, period = None \<rparr>]
                 else [])"
  by (simp add: processGestureWithConfidence_def Let_def streak_resetOthers_same emit_def
        setTimeout_def firing_def streak_def resetOthers_def)

lemma pgc_flags:
  "isCalibrating (processGestureWithConfidence now g s) = isCalibrating s"
  "gestureCallback (processGestureWithConfidence now g s) = gestureCallback s"
  "canvasCtx (processGestureWithConfidence now g s) = canvasCtx s"
  "canvasElement (processGestureWithConfidence now g s) = canvasElement s"
  "lastFrameProcessed (processGestureWithConfidence now g s) = lastFrameProcessed s"
  "lastLandmarkTime (processGestureWithConfidence now g s) = lastLandmarkTime s"
  "noLandmarksTimeout (processGestureWithConfidence now g s) = noLandmarksTimeout s"
  by (simp_all add: processGestureWithConfidence_def Let_def emit_def setTimeout_def)

lemma gestureEvents_append:
  "effects s' = effects s @ es \<Longrightarrow>
   gestureEvents s' = gestureEvents s
     @ concat (map (\<lambda>(t, e). case e of GestureCallback g \<Rightarrow> [(t, g)] | _ \<Rightarrow> []) es)"
  by (simp add: gestureEvents_def)

lemma pgc_gestureEvents:
  "gestureCallback s \<Longrightarrow>
   gestureEvents (processGestureWithConfidence now g s) =
     gestureEvents s @ (if firing g s then [(now, g)] else [])"
  by (simp add: gestureEvents_append [OF pgc_effects])

lemma onResults_one_hand:
  assumes "canvasCtx s" "canvasElement s" "\<not> isCalibrating s" "gestureCallback s"
    and "detectImprovedGesture (Some h) = Inr g" "0 < g"
  shows "onResults now (Some [h]) s =
     processGestureWithConfidence now g (clearNoLandmarksTimeout (s\<lparr> lastLandmarkTime := now \<rparr>))"
proof -
  let ?s2 = "clearNoLandmarksTimeout (s\<lparr> lastLandmarkTime := now \<rparr>)"
  have flags: "canvasCtx ?s2" "canvasElement ?s2" "\<not> isCalibrating ?s2" "gestureCallback ?s2"
    using assms(1-4)
    by (simp_all add: clearNoLandmarksTimeout_def clearTimeout_def split: option.splits)
  have "handleLandmarks now h ?s2 = Inr (processGestureWithConfidence now g ?s2)"
    using handleLandmarks_detecting [OF flags(3) flags(4) assms(5)] assms(6) by simp
  then show ?thesis
    using flags by (simp add: onResults_def Let_def handsDetected_def)
qed

lemma firing_clear:
  "firing g (clearNoLandmarksTimeout (s\<lparr> lastLandmarkTime := now \<rparr>)) = firing g s"
  by (simp add: firing_def debouncer_clearNoLandmarksTimeout)

subsection \<open>The debouncer in reachable states\<close>

lemma debouncerInv_pgc:
  assumes "debouncerInv s"
  shows "debouncerInv (processGestureWithConfidence now g s)"
  unfolding debouncerInv_def
proof (intro allI impI)
  fix k
  assume k: "gestureThreshold \<le> streak (gestureConfidence (processGestureWithConfidence now g s)) k"
  show "lastGestureDetected (processGestureWithConfidence now g s) = k"
  proof (cases "k = g")
    case True
    from k True have "gestureThreshold \<le> streak (gestureConfidence s) g + 1"
      by (simp add: pgc_confidence streak_def)
    then show ?thesis
      using True by (simp add: pgc_last firing_def)
  next
    case False
    then have "streak (gestureConfidence (processGestureWithConfidence now g s)) k = 0"
      by (simp add: pgc_confidence streak_def resetOthers_def split: option.splits)
    with k show ?thesis by (simp add: gestureThreshold_def)
  qed
qed

lemma firing_exact:
  assumes "debouncerInv s" "firing g s"
  shows "streak (gestureConfidence s) g + 1 = gestureThreshold"
proof -
  from assms(2) have ne: "lastGestureDetected s \<noteq> g"
    and ge: "gestureThreshold \<le> streak (gestureConfidence s) g + 1"
    by (simp_all add: firing_def)
  from assms(1) ne have "\<not> gestureThreshold \<le> streak (gestureConfidence s) g"
    by (auto simp add: debouncerInv_def)
  with ge show ?thesis by simp
qed


lemma handleLandmarks_cases:
  obtains (calibrating) c where "handleLandmarks now h s = Inr (s\<lparr> calibrationData := c \<rparr>)"
  | (gesture) g where "0 < g" "\<not> isCalibrating s" "gestureCallback s"
      "detectImprovedGesture (Some h) = Inr g"
      "handleLandmarks now h s = Inr (processGestureWithConfidence now g s)"
proof (cases "isCalibrating s")
  case True
  from handleLandmarks_calibrating [OF True] calibrating show ?thesis by blast
next
  case False
  obtain g where g: "detectImprovedGesture (Some h) = Inr g"
    using detectImprovedGesture_total by blast
  show ?thesis
  proof (cases "gestureCallback s \<and> 0 < g")
    case True
    with False g gesture handleLandmarks_detecting [OF False _ g, of now] show ?thesis
      by simp
  next
    case no: False
    have "handleLandmarks now h s = Inr (s\<lparr> calibrationData := calibrationData s \<rparr>)"
      using False g no by (auto simp add: handleLandmarks_def bnd_def)
    with calibrating show ?thesis by blast
  qed
qed

lemma forEachHand_invariant:
  assumes "P s"
    and cal: "\<And>s c. P s \<Longrightarrow> P (s\<lparr> calibrationData := c \<rparr>)"
    and pgc: "\<And>s g h. P s \<Longrightarrow> 0 < g \<Longrightarrow> \<not> isCalibrating s \<Longrightarrow> gestureCallback s \<Longrightarrow>
               h \<in> set hs \<Longrightarrow> detectImprovedGesture (Some h) = Inr g \<Longrightarrow>
               P (processGestureWithConfidence now g s)"
  shows "P (forEachHand now hs s)"
  using assms(1) pgc
proof (induction hs arbitrary: s)
  case Nil
  then show ?case by simp
next
  case (Cons h hs)
  show ?case
  proof (cases rule: handleLandmarks_cases [of now h s])
    case (calibrating c)
    have "P (forEachHand now hs (s\<lparr> calibrationData := c \<rparr>))"
      by (rule Cons.IH) (auto intro: cal Cons.prems)
    with calibrating show ?thesis by simp
  next
    case (gesture g)
    have "P (processGestureWithConfidence now g s)"
      using Cons.prems(1) gesture(1-4) by (auto intro: Cons.prems(2))
    then have "P (forEachHand now hs (processGestureWithConfidence now g s))"
      by (rule Cons.IH) (auto intro: Cons.prems(2))
    with gesture show ?thesis by simp
  qed
qed

lemma debouncerInv_forEachHand:
  "debouncerInv s \<Longrightarrow> debouncerInv (forEachHand now hs s)"
  by (rule forEachHand_invariant) (simp_all add: debouncerInv_pgc, simp add: debouncerInv_def)

lemma debouncerInv_onResults:
  assumes "debouncerInv s"
  shows "debouncerInv (onResults now r s)"
proof -
  let ?s2 = "clearNoLandmarksTimeout (s\<lparr> lastLandmarkTime := now \<rparr>)"
  have s2: "debouncerInv ?s2"
    using assms by (simp add: debouncerInv_def debouncer_clearNoLandmarksTimeout)
  then have "debouncerInv (forEachHand now (the r) ?s2)"
    by (rule debouncerInv_forEachHand)
  moreover have "debouncerInv ((setTimeout now 5000 NoLandmarksRestart ?s2)
                    \<lparr> noLandmarksTimeout := Some (nextTimerId ?s2) \<rparr>)"
    using s2 by (simp add: debouncerInv_def setTimeout_def)
  ultimately show ?thesis
    using s2 by (simp add: onResults_def Let_def split: option.splits)
qed

lemma debouncerInv_runCallback:
  "debouncerInv s \<Longrightarrow> debouncerInv (runCallback now c (s\<lparr> timers := ts \<rparr>))"
  by (cases c)
     (simp_all add: debouncerInv_def runCallback_def noLandmarksRestart_def initializeCamera_def
        stuckCheck_def clearNoLandmarksTimeout_def clearTimeout_def setTimeout_def emit_def
        Let_def streak_def gestureThreshold_def split: option.splits)

lemma debouncerInv_eq:
  "debouncerInv s \<Longrightarrow> gestureConfidence s' = gestureConfidence s \<Longrightarrow>
   lastGestureDetected s' = lastGestureDetected s \<Longrightarrow> debouncerInv s'"
  by (simp add: debouncerInv_def)

lemma debouncerInv_step:
  assumes "step now ev s = Some s'" "debouncerInv s"
  shows "debouncerInv s'"
proof (cases ev)
  case (OnResults r)
  with assms show ?thesis by (auto simp add: step_def debouncerInv_onResults)
next
  case (Fire i)
  with assms show ?thesis
    by (auto simp add: step_def fireTimer_def debouncerInv_runCallback split: option.splits)
next
  case (Initialize ctx)
  with assms(1) have "s' = initialize now ctx s" by (simp add: step_def)
  with assms(2) show ?thesis
    by (elim debouncerInv_eq)
       (simp_all add: initialize_def initializeCamera_def setupStuckDetection_def
          setInterval_def emit_def Let_def)
next
  case OnFrame
  with assms(1) have "s' = onFrame now s" by (simp add: step_def)
  with assms(2) show ?thesis
    by (elim debouncerInv_eq) (simp_all add: onFrame_def emit_def Let_def)
next
  case StartCalibration
  with assms show ?thesis
    by (auto simp add: step_def debouncerInv_def startCalibration_def setTimeout_def
          streak_def gestureThreshold_def)
next
  case StopCamera
  with assms(1) have "s' = stopCamera now s" by (simp add: step_def)
  with assms(2) show ?thesis
    by (elim debouncerInv_eq)
       (simp_all add: stopCamera_def clearNoLandmarksTimeout_def clearTimeout_def emit_def
          Let_def split: option.splits)
next
  case CameraStartError
  with assms(1) have "s' = cameraStartError now s" by (simp add: step_def)
  with assms(2) show ?thesis
    by (elim debouncerInv_eq) (simp_all add: cameraStartError_def setTimeout_def)
qed

lemma debouncerInv_run:
  "run es s = Some s' \<Longrightarrow> debouncerInv s \<Longrightarrow> debouncerInv s'"
proof (induction es arbitrary: s)
  case Nil
  then show ?case by simp
next
  case (Cons e es)
  obtain now ev where e: "e = (now, ev)" by (cases e)
  from Cons.prems(1) e obtain s1 where s1: "step now ev s = Some s1" "run es s1 = Some s'"
    by (auto split: option.splits)
  from debouncerInv_step [OF s1(1) Cons.prems(2)] Cons.IH [OF s1(2)] show ?case by blast
qed

lemma debouncerInv_newService: "debouncerInv newService"
  by (simp add: debouncerInv_def newService_def streak_def gestureThreshold_def)

subsection \<open>The example runs\<close>

lemma run_append:
  "run (es @ fs) s = (case run es s of None \<Rightarrow> None | Some s' \<Rightarrow> run fs s')"
  by (induction es arbitrary: s) (auto split: option.splits)

lemma run_readyTrace: "run readyTrace newService = Some readyService"
  by (simp add: readyTrace_def newService_def readyService_def step_def initialize_def
        initializeCamera_def setupStuckDetection_def setInterval_def emit_def Let_def
        startCalibration_def setTimeout_def fireTimer_def runCallback_def stuckCheck_def)

lemma detect_twoFingers: "detectImprovedGesture (Some twoFingers) = Inr 2"
  by (simp add: twoFingers_def detectImprovedGesture_poseHand gestureOfFlags_def
        extendedFingerCount_def)

lemma detect_threeFingers: "detectImprovedGesture (Some threeFingers) = Inr 3"
  by (simp add: threeFingers_def detectImprovedGesture_poseHand gestureOfFlags_def
        extendedFingerCount_def)

lemma detect_fist: "detectImprovedGesture (Some fist) = Inr 0"
  by (simp add: fist_def detectImprovedGesture_poseHand gestureOfFlags_def
        extendedFingerCount_def)

lemma run_heldTwice:
  "run (readyTrace @ [(5100, OnResults (Some [twoFingers])), (5200, OnResults (Some [twoFingers]))])
     newService = Some heldTwice"
  by (simp add: run_append run_readyTrace step_def heldTwice_def)

lemmas serviceDefs = onResults_def handsDetected_def handleLandmarks_def bnd_def
  processGestureWithConfidence_def resetOthers_def streak_def gestureThreshold_def
  clearNoLandmarksTimeout_def clearTimeout_def setTimeout_def emit_def Let_def
  gestureEvents_def firing_def pending_def

lemmas runDefs = step_def fireTimer_def runCallback_def stuckCheck_def onFrame_def
  processingFrameRate_def initialize_def initializeCamera_def setupStuckDetection_def
  setInterval_def noLandmarksRestart_def cameraStops_def

lemma heldTwice_facts:
  "canvasCtx heldTwice" "canvasElement heldTwice" "\<not> isCalibrating heldTwice"
  "gestureCallback heldTwice" "streak (gestureConfidence heldTwice) 2 = 2"
  "lastGestureDetected heldTwice = 0" "gestureEvents heldTwice = []"
  by (simp_all add: heldTwice_def readyService_def serviceDefs detect_twoFingers)

subsection \<open>The frame-rate limiter\<close>

lemma spaced_span:
  "sorted_wrt (\<lambda>a b. a + d \<le> b) ts \<Longrightarrow> ts \<noteq> [] \<Longrightarrow>
   hd ts + d * (int (length ts) - 1) \<le> last (ts :: int list)"
proof (induction ts)
  case Nil
  then show ?case by simp
next
  case (Cons a ts)
  show ?case
  proof (cases ts)
    case Nil
    then show ?thesis by simp
  next
    case (Cons b us)
    with Cons.prems have "a + d \<le> b" by simp
    moreover from Cons.IH Cons.prems Cons
    have "hd ts + d * (int (length ts) - 1) \<le> last ts" by simp
    ultimately show ?thesis using Cons by (simp add: algebra_simps)
  qed
qed

lemma spaced_window:
  assumes "sorted_wrt (\<lambda>a b. a + 67 \<le> b) (ts :: int list)"
  shows "length (filter (\<lambda>t. w \<le> t \<and> t \<le> w + 1000) ts) \<le> 15"
proof -
  let ?fs = "filter (\<lambda>t. w \<le> t \<and> t \<le> w + 1000) ts"
  have sp: "sorted_wrt (\<lambda>a b. a + 67 \<le> b) ?fs"
    using assms by (rule sorted_wrt_filter)
  show ?thesis
  proof (cases "?fs = []")
    case True
    then show ?thesis by simp
  next
    case False
    from spaced_span [OF sp False] have "hd ?fs + 67 * (int (length ?fs) - 1) \<le> last ?fs" .
    moreover have "hd ?fs \<in> set ?fs" "last ?fs \<in> set ?fs"
      using False hd_in_set last_in_set by blast+
    then have "w \<le> hd ?fs" "last ?fs \<le> w + 1000" by simp_all
    ultimately show ?thesis by simp
  qed
qed

lemma sendTimes_emit:
  "sendTimes (emit now e s) = sendTimes s @ (if e = HandsSend then [now] else [])"
  by (cases e) (simp_all add: sendTimes_def emit_def)

lemma limiterInv_eq:
  "limiterInv s \<Longrightarrow> sendTimes s' = sendTimes s \<Longrightarrow>
   lastFrameProcessed s' = lastFrameProcessed s \<Longrightarrow> limiterInv s'"
  by (simp add: limiterInv_def)

lemma frame_gate_int: "(1000 / real processingFrameRate < real_of_int d) = (67 \<le> d)"
proof -
  have "(1000 / real processingFrameRate < real_of_int d) = (1000 < 15 * real_of_int d)"
    by (simp add: processingFrameRate_def field_simps)
  also have "\<dots> = (1000 < 15 * d)"
    by (metis of_int_less_iff of_int_mult of_int_numeral)
  also have "\<dots> = (67 \<le> d)" by presburger
  finally show ?thesis .
qed

lemma frame_gate:
  "(1000 / real processingFrameRate < real_of_int a - real_of_int b) = (67 \<le> a - b)"
  using frame_gate_int [of "a - b"] by simp

lemma limiterInv_onFrame:
  assumes "limiterInv s"
  shows "limiterInv (onFrame now s)"
proof (cases "67 \<le> now - lastFrameProcessed s")
  case False
  then show ?thesis using assms by (simp add: onFrame_def frame_gate)
next
  case True
  let ?s1 = "s\<lparr> lastFrameProcessed := now \<rparr>"
  have old: "\<forall>t \<in> set (sendTimes s). t + 67 \<le> now \<and> t \<le> now"
    using assms True by (auto simp add: limiterInv_def)
  have s1: "sendTimes ?s1 = sendTimes s" by (simp add: sendTimes_def)
  have sp: "sorted_wrt (\<lambda>a b. a + 67 \<le> b) (sendTimes s)"
    using assms by (simp add: limiterInv_def)
  have "limiterInv ?s1"
    using old sp by (simp add: limiterInv_def s1)
  moreover have st: "sendTimes (emit now HandsSend ?s1) = sendTimes s @ [now]"
    by (simp add: sendTimes_emit s1)
  have lf: "lastFrameProcessed (emit now HandsSend ?s1) = now"
    by (simp add: emit_def)
  have "limiterInv (emit now HandsSend ?s1)"
    using old sp unfolding limiterInv_def st lf by (simp add: sorted_wrt_append)
  ultimately show ?thesis
    using True by (simp add: onFrame_def frame_gate Let_def)
qed

lemma sendTimes_pgc:
  "sendTimes (processGestureWithConfidence now g s) = sendTimes s"
  by (simp add: sendTimes_def pgc_effects)

lemma limiter_forEachHand:
  "sendTimes (forEachHand now hs s) = sendTimes s
   \<and> lastFrameProcessed (forEachHand now hs s) = lastFrameProcessed s"
  by (rule forEachHand_invariant) (simp_all add: sendTimes_pgc pgc_flags, simp add: sendTimes_def)

lemma limiter_clear:
  "sendTimes (clearNoLandmarksTimeout s) = sendTimes s"
  "lastFrameProcessed (clearNoLandmarksTimeout s) = lastFrameProcessed s"
  by (simp_all add: sendTimes_def clearNoLandmarksTimeout_def clearTimeout_def split: option.splits)

lemma limiter_onResults:
  "sendTimes (onResults now r s) = sendTimes s
   \<and> lastFrameProcessed (onResults now r s) = lastFrameProcessed s"
proof -
  let ?s2 = "clearNoLandmarksTimeout (s\<lparr> lastLandmarkTime := now \<rparr>)"
  have s2: "sendTimes ?s2 = sendTimes s" "lastFrameProcessed ?s2 = lastFrameProcessed s"
    by (simp_all add: limiter_clear, simp add: sendTimes_def)
  moreover have "sendTimes ((setTimeout now 5000 NoLandmarksRestart ?s2)
                    \<lparr> noLandmarksTimeout := Some (nextTimerId ?s2) \<rparr>) = sendTimes ?s2"
     "lastFrameProcessed ((setTimeout now 5000 NoLandmarksRestart ?s2)
                    \<lparr> noLandmarksTimeout := Some (nextTimerId ?s2) \<rparr>) = lastFrameProcessed ?s2"
    by (simp_all add: sendTimes_def setTimeout_def)
  ultimately show ?thesis
    using limiter_forEachHand [of now "the r" ?s2]
    by (simp add: onResults_def Let_def split: option.splits)
qed

lemma limiter_runCallback:
  "sendTimes (runCallback now c (s\<lparr> timers := ts \<rparr>)) = sendTimes s
   \<and> lastFrameProcessed (runCallback now c (s\<lparr> timers := ts \<rparr>)) = lastFrameProcessed s"
  by (cases c)
     (simp_all add: sendTimes_def runCallback_def noLandmarksRestart_def initializeCamera_def
        stuckCheck_def clearNoLandmarksTimeout_def clearTimeout_def setTimeout_def emit_def
        Let_def split: option.splits)

lemma limiterInv_step:
  assumes "step now ev s = Some s'" "limiterInv s"
  shows "limiterInv s'"
proof (cases ev)
  case (OnResults r)
  with assms(1) have "s' = onResults now r s" by (simp add: step_def)
  with assms(2) limiter_onResults [of now r s] show ?thesis
    by (auto elim: limiterInv_eq)
next
  case (Fire i)
  with assms(1) obtain c ts where "s' = runCallback now c (s\<lparr> timers := ts \<rparr>)"
    by (auto simp add: step_def fireTimer_def split: option.splits)
  with assms(2) limiter_runCallback [where now = now and c = c and s = s and ts = ts] show ?thesis
    by (auto elim: limiterInv_eq)
next
  case (Initialize ctx)
  with assms(1) have "s' = initialize now ctx s" by (simp add: step_def)
  with assms(2) show ?thesis
    by (elim limiterInv_eq)
       (simp_all add: sendTimes_def initialize_def initializeCamera_def setupStuckDetection_def
          setInterval_def emit_def Let_def)
next
  case OnFrame
  with assms show ?thesis by (auto simp add: step_def limiterInv_onFrame)
next
  case StartCalibration
  with assms(1) have "s' = startCalibration now s" by (simp add: step_def)
  with assms(2) show ?thesis
    by (elim limiterInv_eq) (simp_all add: sendTimes_def startCalibration_def setTimeout_def)
next
  case StopCamera
  with assms(1) have "s' = stopCamera now s" by (simp add: step_def)
  with assms(2) show ?thesis
    by (elim limiterInv_eq)
       (simp_all add: sendTimes_def stopCamera_def clearNoLandmarksTimeout_def clearTimeout_def
          emit_def Let_def split: option.splits)
next
  case CameraStartError
  with assms(1) have "s' = cameraStartError now s" by (simp add: step_def)
  with assms(2) show ?thesis
    by (elim limiterInv_eq) (simp_all add: sendTimes_def cameraStartError_def setTimeout_def)
qed

lemma limiterInv_run:
  "run es s = Some s' \<Longrightarrow> limiterInv s \<Longrightarrow> limiterInv s'"
proof (induction es arbitrary: s)
  case Nil
  then show ?case by simp
next
  case (Cons e es)
  obtain now ev where e: "e = (now, ev)" by (cases e)
  from Cons.prems(1) e obtain s1 where s1: "step now ev s = Some s1" "run es s1 = Some s'"
    by (auto split: option.splits)
  from limiterInv_step [OF s1(1) Cons.prems(2)] Cons.IH [OF s1(2)] show ?case by blast
qed

lemma limiterInv_newService: "limiterInv newService"
  by (simp add: limiterInv_def newService_def sendTimes_def)

subsection \<open>Timer handles\<close>

lemma timersFresh_forEachHand:
  "timersFresh s \<Longrightarrow> timersFresh (forEachHand now hs s)"
proof (rule forEachHand_invariant)
  fix s g
  assume "timersFresh s"
  then show "timersFresh (processGestureWithConfidence now g s)"
    by (auto simp add: timersFresh_def processGestureWithConfidence_def Let_def setTimeout_def
          emit_def handleBelow_def list_all_iff split: option.splits)
qed (simp_all add: timersFresh_def)

lemma timersFresh_clear:
  "timersFresh s \<Longrightarrow> timersFresh (clearNoLandmarksTimeout s)"
  by (auto simp add: timersFresh_def clearNoLandmarksTimeout_def clearTimeout_def
        handleBelow_def list_all_iff split: option.splits)

lemma timersFresh_setTimeout:
  "timersFresh s \<Longrightarrow> timersFresh (setTimeout now d c s)"
  by (auto simp add: timersFresh_def setTimeout_def handleBelow_def list_all_iff
        split: option.splits)

lemma timersFresh_emit:
  "timersFresh s \<Longrightarrow> timersFresh (emit now e s)"
  by (simp add: timersFresh_def emit_def)

lemma timersFresh_onResults:
  assumes "timersFresh s"
  shows "timersFresh (onResults now r s)"
proof -
  let ?s2 = "clearNoLandmarksTimeout (s\<lparr> lastLandmarkTime := now \<rparr>)"
  have "timersFresh (s\<lparr> lastLandmarkTime := now \<rparr>)"
    using assms by (simp add: timersFresh_def)
  then have s2: "timersFresh ?s2" by (rule timersFresh_clear)
  then have "timersFresh (forEachHand now (the r) ?s2)"
    by (rule timersFresh_forEachHand)
  moreover have "timersFresh ((setTimeout now 5000 NoLandmarksRestart ?s2)
                    \<lparr> noLandmarksTimeout := Some (nextTimerId ?s2) \<rparr>)"
    using s2 by (auto simp add: timersFresh_def setTimeout_def handleBelow_def list_all_iff
          split: option.splits)
  ultimately show ?thesis
    using s2 by (simp add: onResults_def Let_def split: option.splits)
qed

lemma takeDue_set:
  "takeDue now i ts = Some (c, ts') \<Longrightarrow> u \<in> set ts' \<Longrightarrow>
   u \<in> set ts \<or> (\<exists>t \<in> set ts. \<exists>p. tid t = i \<and> cb t = c \<and> period t = Some p
                     \<and> u = t\<lparr> due := now + p \<rparr>)"
proof (induction ts arbitrary: ts')
  case Nil
  then show ?case by simp
next
  case (Cons t ts)
  show ?case
  proof (cases "tid t = i")
    case True
    with Cons.prems show ?thesis
      by (auto split: if_splits option.splits)
  next
    case False
    with Cons.prems(1) obtain us where us: "takeDue now i ts = Some (c, us)" "ts' = t # us"
      by auto
    with Cons.prems(2) Cons.IH [OF us(1)] show ?thesis by auto
  qed
qed

lemma takeDue_due:
  "takeDue now i ts = Some (c, ts') \<Longrightarrow> \<exists>t \<in> set ts. tid t = i \<and> cb t = c \<and> due t \<le> now"
proof (induction ts arbitrary: ts')
  case Nil
  then show ?case by simp
next
  case (Cons t ts)
  show ?case
  proof (cases "tid t = i")
    case True
    with Cons.prems show ?thesis by (auto split: if_splits)
  next
    case False
    with Cons.prems(1) obtain us where us: "takeDue now i ts = Some (c, us)" by auto
    from Cons.IH [OF us] show ?thesis by auto
  qed
qed

lemma timersFresh_runCallback:
  assumes "timersFresh s"
  shows "timersFresh (runCallback now c s)"
proof (cases c)
  case StuckCheck
  have "timersFresh (if camera s then emit now CameraStop s else s)"
    using assms by (simp add: timersFresh_emit)
  then have "timersFresh (setTimeout now 500 InitializeCamera
      (clearNoLandmarksTimeout (if camera s then emit now CameraStop s else s)))"
    by (intro timersFresh_setTimeout timersFresh_clear)
  with assms StuckCheck show ?thesis
    by (simp add: runCallback_def stuckCheck_def Let_def)
next
  case NoLandmarksRestart
  have "timersFresh (if camera s then emit now CameraStop s else s)"
    using assms by (simp add: timersFresh_emit)
  then have "timersFresh (setTimeout now 500 InitializeCamera
      (if camera s then emit now CameraStop s else s))"
    by (rule timersFresh_setTimeout)
  with NoLandmarksRestart show ?thesis
    by (simp add: runCallback_def noLandmarksRestart_def Let_def)
qed (use assms in \<open>simp_all add: runCallback_def timersFresh_def initializeCamera_def emit_def Let_def\<close>)

lemma timersFresh_fireTimer:
  assumes "fireTimer now i s = Some s'" "timersFresh s"
  shows "timersFresh s'"
proof -
  from assms(1) obtain c ts where td: "takeDue now i (timers s) = Some (c, ts)"
    and s': "s' = runCallback now c (s\<lparr> timers := ts \<rparr>)"
    by (auto simp add: fireTimer_def split: option.splits)
  have "\<forall>u \<in> set ts. tid u < nextTimerId s"
  proof
    fix u assume "u \<in> set ts"
    from takeDue_set [OF td this] assms(2) show "tid u < nextTimerId s"
      by (auto simp add: timersFresh_def list_all_iff)
  qed
  with assms(2) have "timersFresh (s\<lparr> timers := ts \<rparr>)"
    by (simp add: timersFresh_def list_all_iff)
  then show ?thesis unfolding s' by (rule timersFresh_runCallback)
qed

lemma timersFresh_step:
  assumes "step now ev s = Some s'" "timersFresh s"
  shows "timersFresh s'"
proof (cases ev)
  case (OnResults r)
  with assms show ?thesis by (auto simp add: step_def timersFresh_onResults)
next
  case (Fire i)
  with assms show ?thesis by (auto simp add: step_def intro: timersFresh_fireTimer)
next
  case (Initialize ctx)
  with assms(1) have s': "s' = initialize now ctx s" by (simp add: step_def)
  from assms(2) show ?thesis
    unfolding s'
    by (auto simp add: timersFresh_def initialize_def initializeCamera_def
          setupStuckDetection_def setInterval_def emit_def Let_def handleBelow_def list_all_iff
          less_Suc_eq split: option.splits)
next
  case OnFrame
  with assms(1) have s': "s' = onFrame now s" by (simp add: step_def)
  from assms(2) show ?thesis
    unfolding s' by (simp add: timersFresh_def onFrame_def emit_def Let_def)
next
  case StartCalibration
  with assms(1) have s': "s' = startCalibration now s" by (simp add: step_def)
  have "timersFresh (s\<lparr> isCalibrating := True, calibrationData := None,
           gestureConfidence := Map.empty, lastGestureDetected := 0 \<rparr>)"
    using assms(2) by (simp add: timersFresh_def)
  then show ?thesis
    unfolding s' startCalibration_def by (rule timersFresh_setTimeout)
next
  case StopCamera
  with assms(1) have s': "s' = stopCamera now s" by (simp add: step_def)
  from assms(2) show ?thesis
    unfolding s'
    by (auto simp add: timersFresh_def stopCamera_def clearNoLandmarksTimeout_def
          clearTimeout_def emit_def Let_def handleBelow_def list_all_iff split: option.splits)
next
  case CameraStartError
  with assms show ?thesis
    by (auto simp add: step_def cameraStartError_def timersFresh_setTimeout)
qed

lemma timersFresh_run:
  "run es s = Some s' \<Longrightarrow> timersFresh s \<Longrightarrow> timersFresh s'"
proof (induction es arbitrary: s)
  case Nil
  then show ?case by simp
next
  case (Cons e es)
  obtain now ev where e: "e = (now, ev)" by (cases e)
  from Cons.prems(1) e obtain s1 where s1: "step now ev s = Some s1" "run es s1 = Some s'"
    by (auto split: option.splits)
  from timersFresh_step [OF s1(1) Cons.prems(2)] Cons.IH [OF s1(2)] show ?case by blast
qed

lemma timersFresh_newService: "timersFresh newService"
  by (simp add: timersFresh_def newService_def handleBelow_def)

subsection \<open>A held pose after a firing\<close>

lemma windowInv_timers:
  assumes "windowInv g T E s"
    and "T \<in> set ts"
    and "\<And>u. u \<in> set ts \<Longrightarrow> u \<in> set (timers s) \<or> (cb u \<noteq> CooldownReset \<and> tid u \<noteq> tid T)"
  shows "windowInv g T E (s\<lparr> timers := ts \<rparr>)"
  using assms by (auto simp add: windowInv_def list_all_iff gestureEvents_def)

lemma windowInv_setTimeout:
  assumes "windowInv g T E s" "c \<noteq> CooldownReset"
  shows "windowInv g T E (setTimeout now d c s)"
  using assms by (auto simp add: windowInv_def list_all_iff gestureEvents_def setTimeout_def)

lemma windowInv_emit:
  assumes "windowInv g T E s" "\<And>k. e \<noteq> GestureCallback k"
  shows "windowInv g T E (emit now e s)"
  using assms by (cases e) (auto simp add: windowInv_def gestureEvents_def emit_def)

lemma windowInv_clear:
  assumes "windowInv g T E s"
  shows "windowInv g T E (clearNoLandmarksTimeout s)"
  using assms
  by (auto simp add: windowInv_def list_all_iff gestureEvents_def clearNoLandmarksTimeout_def
        clearTimeout_def split: option.splits)

lemma windowInv_pgc:
  assumes "windowInv g T E s"
  shows "windowInv g T E (processGestureWithConfidence now g s)"
proof -
  from assms have "\<not> firing g s" by (simp add: windowInv_def firing_def)
  with assms show ?thesis
    by (simp add: windowInv_def pgc_last pgc_timers pgc_flags gestureEvents_def pgc_effects
          processGestureWithConfidence_def Let_def firing_def streak_def resetOthers_def)
qed

lemma windowInv_forEachHand:
  assumes "windowInv g T E s" "list_all (holdsPose g) hs"
  shows "windowInv g T E (forEachHand now hs s)"
proof (rule forEachHand_invariant)
  show "windowInv g T E s" by (rule assms)
next
  fix s c assume "windowInv g T E s"
  then show "windowInv g T E (s\<lparr> calibrationData := c \<rparr>)"
    by (simp add: windowInv_def gestureEvents_def)
next
  fix s k h
  assume inv: "windowInv g T E s" and k: "0 < k" and h: "h \<in> set hs"
    and d: "detectImprovedGesture (Some h) = Inr k"
  from assms(2) h have "holdsPose g h" by (simp add: list_all_iff)
  with d k have "k = g" by (auto simp add: holdsPose_def)
  with inv show "windowInv g T E (processGestureWithConfidence now k s)"
    by (simp add: windowInv_pgc)
qed

lemma windowInv_onResults:
  assumes "windowInv g T E s" "holdEvent g (OnResults r)"
  shows "windowInv g T E (onResults now r s)"
proof -
  let ?s2 = "clearNoLandmarksTimeout (s\<lparr> lastLandmarkTime := now \<rparr>)"
  have "windowInv g T E (s\<lparr> lastLandmarkTime := now \<rparr>)"
    using assms(1) by (simp add: windowInv_def gestureEvents_def)
  then have s2: "windowInv g T E ?s2" by (rule windowInv_clear)
  have hands: "handsDetected r \<Longrightarrow> windowInv g T E (forEachHand now (the r) ?s2)"
    using assms(2) s2
    by (cases r) (auto simp add: handsDetected_def holdEvent_def intro: windowInv_forEachHand)
  have "windowInv g T E (setTimeout now 5000 NoLandmarksRestart ?s2)"
    using s2 by (rule windowInv_setTimeout) simp
  then have none: "windowInv g T E ((setTimeout now 5000 NoLandmarksRestart ?s2)
                    \<lparr> noLandmarksTimeout := Some (nextTimerId ?s2) \<rparr>)"
    using s2 by (auto simp add: windowInv_def gestureEvents_def setTimeout_def)
  show ?thesis
    using s2 hands none by (simp add: onResults_def Let_def split: option.splits)
qed

lemma windowInv_runCallback:
  assumes "windowInv g T E s" "c \<noteq> CooldownReset"
  shows "windowInv g T E (runCallback now c s)"
proof (cases c)
  case CooldownReset
  with assms show ?thesis by simp
next
  case NoLandmarksRestart
  have "windowInv g T E (if camera s then emit now CameraStop s else s)"
    using assms(1) by (simp add: windowInv_emit)
  then have "windowInv g T E (setTimeout now 500 InitializeCamera
      (if camera s then emit now CameraStop s else s))"
    by (rule windowInv_setTimeout) simp
  with NoLandmarksRestart show ?thesis
    by (simp add: runCallback_def noLandmarksRestart_def Let_def)
next
  case InitializeCamera
  have "windowInv g T E (s\<lparr> cameraStartAttempts := cameraStartAttempts s + 1 \<rparr>)"
    "windowInv g T E (s\<lparr> cameraStartAttempts := cameraStartAttempts s + 1, camera := True \<rparr>)"
    using assms(1) by (simp_all add: windowInv_def gestureEvents_def)
  then show ?thesis
    using InitializeCamera
    by (simp add: runCallback_def initializeCamera_def Let_def windowInv_emit)
next
  case StuckCheck
  have "windowInv g T E (if camera s then emit now CameraStop s else s)"
    using assms(1) by (simp add: windowInv_emit)
  then have "windowInv g T E (clearNoLandmarksTimeout (if camera s then emit now CameraStop s else s))"
    by (rule windowInv_clear)
  then have "windowInv g T E (setTimeout now 500 InitializeCamera
      (clearNoLandmarksTimeout (if camera s then emit now CameraStop s else s)))"
    by (rule windowInv_setTimeout) simp
  with assms(1) StuckCheck show ?thesis
    by (simp add: runCallback_def stuckCheck_def Let_def)
next
  case CalibrationEnd
  with assms(1) show ?thesis
    by (simp add: runCallback_def windowInv_def gestureEvents_def)
qed

lemma takeDue_keeps:
  "takeDue now i ts = Some (c, ts') \<Longrightarrow> T \<in> set ts \<Longrightarrow> now < due T \<Longrightarrow>
   \<forall>t \<in> set ts. tid t = tid T \<longrightarrow> t = T \<Longrightarrow> T \<in> set ts' \<and> i \<noteq> tid T"
proof (induction ts arbitrary: ts')
  case Nil
  then show ?case by simp
next
  case (Cons t ts)
  show ?case
  proof (cases "tid t = i")
    case True
    with Cons.prems show ?thesis
      by (auto split: if_splits option.splits)
  next
    case False
    with Cons.prems(1) obtain us where us: "takeDue now i ts = Some (c, us)" "ts' = t # us"
      by auto
    show ?thesis
    proof (cases "T = t")
      case True
      with us False Cons.prems show ?thesis by auto
    next
      case ne: False
      with Cons.prems have "T \<in> set ts" "\<forall>t \<in> set ts. tid t = tid T \<longrightarrow> t = T" by auto
      from Cons.IH [OF us(1) this(1) Cons.prems(3) this(2)] us show ?thesis by simp
    qed
  qed
qed

lemma windowInv_fireTimer:
  assumes "windowInv g T E s" "cb T = CooldownReset" "now < due T"
    and "fireTimer now i s = Some s'"
  shows "windowInv g T E s'"
proof -
  from assms(4) obtain c ts where td: "takeDue now i (timers s) = Some (c, ts)"
    and s': "s' = runCallback now c (s\<lparr> timers := ts \<rparr>)"
    by (auto simp add: fireTimer_def split: option.splits)
  from assms(1) have T: "T \<in> set (timers s)"
    and uniq: "\<forall>t \<in> set (timers s). tid t = tid T \<longrightarrow> t = T"
    and early: "\<forall>t \<in> set (timers s). cb t = CooldownReset \<longrightarrow> due T \<le> due t"
    by (simp_all add: windowInv_def list_all_iff)
  from takeDue_keeps [OF td T assms(3) uniq] have keep: "T \<in> set ts" "i \<noteq> tid T" by simp_all
  from takeDue_due [OF td] obtain t where t: "t \<in> set (timers s)" "cb t = c" "due t \<le> now"
    by blast
  with early assms(3) have c: "c \<noteq> CooldownReset" by force
  have "windowInv g T E (s\<lparr> timers := ts \<rparr>)"
  proof (rule windowInv_timers [OF assms(1) keep(1)])
    fix u assume "u \<in> set ts"
    from takeDue_set [OF td this] c keep(2)
    show "u \<in> set (timers s) \<or> (cb u \<noteq> CooldownReset \<and> tid u \<noteq> tid T)"
      by auto
  qed
  then show ?thesis unfolding s' using c by (rule windowInv_runCallback)
qed

lemma windowInv_step:
  assumes "windowInv g T E s" "cb T = CooldownReset" "now < due T" "holdEvent g ev"
    and "step now ev s = Some s'"
  shows "windowInv g T E s'"
proof (cases ev)
  case (OnResults r)
  with assms show ?thesis by (auto simp add: step_def windowInv_onResults)
next
  case (Fire i)
  with assms show ?thesis by (auto simp add: step_def intro: windowInv_fireTimer)
next
  case (Initialize ctx)
  with assms(5) have s': "s' = initialize now ctx s" by (simp add: step_def)
  let ?s1 = "s\<lparr> videoElement := True, canvasElement := True, canvasCtx := ctx,
                 gestureCallback := True, hands := True \<rparr>"
  have s1: "windowInv g T E ?s1"
    using assms(1) by (simp add: windowInv_def gestureEvents_def)
  have "windowInv g T E (?s1\<lparr> cameraStartAttempts := cameraStartAttempts ?s1 + 1 \<rparr>)"
    "windowInv g T E (?s1\<lparr> cameraStartAttempts := cameraStartAttempts ?s1 + 1, camera := True \<rparr>)"
    using s1 by (simp_all add: windowInv_def gestureEvents_def)
  then have s2: "windowInv g T E (initializeCamera now ?s1)"
    by (simp add: initializeCamera_def Let_def windowInv_emit)
  have s3: "windowInv g T E (setupStuckDetection now (initializeCamera now ?s1))"
    using s2
    by (auto simp add: windowInv_def list_all_iff gestureEvents_def setupStuckDetection_def
          setInterval_def)
  then have "windowInv g T E ((setupStuckDetection now (initializeCamera now ?s1))
                               \<lparr> isReady := True \<rparr>)"
    by (simp add: windowInv_def gestureEvents_def)
  then show ?thesis
    unfolding s' initialize_def Let_def .
next
  case StartCalibration
  with assms(4) show ?thesis by (simp add: holdEvent_def)
next
  case OnFrame
  with assms(5) have s': "s' = onFrame now s" by (simp add: step_def)
  have "windowInv g T E (s\<lparr> lastFrameProcessed := now \<rparr>)"
    using assms(1) by (simp add: windowInv_def gestureEvents_def)
  then show ?thesis
    unfolding s' using assms(1) by (simp add: onFrame_def Let_def windowInv_emit)
next
  case StopCamera
  with assms(5) have s': "s' = stopCamera now s" by (simp add: step_def)
  let ?s1 = "if camera s then emit now CameraStop s else s"
  have s1: "windowInv g T E ?s1"
    using assms(1) by (simp add: windowInv_emit)
  then have "windowInv g T E (case stuckDetectionTimer ?s1 of
                  None \<Rightarrow> ?s1
                | Some i \<Rightarrow> (clearTimeout i ?s1)\<lparr> stuckDetectionTimer := None \<rparr>)"
    by (auto simp add: windowInv_def list_all_iff gestureEvents_def clearTimeout_def
          split: option.splits)
  then show ?thesis
    unfolding s' stopCamera_def Let_def by (rule windowInv_clear)
next
  case CameraStartError
  with assms(5) have s': "s' = cameraStartError now s" by (simp add: step_def)
  show ?thesis
    unfolding s' using assms(1) by (simp add: cameraStartError_def windowInv_setTimeout)
qed

lemma windowInv_run:
  "run es s = Some s' \<Longrightarrow> windowInv g T E s \<Longrightarrow> cb T = CooldownReset \<Longrightarrow>
   holdWindow g (due T) es \<Longrightarrow> windowInv g T E s'"
proof (induction es arbitrary: s)
  case Nil
  then show ?case by simp
next
  case (Cons e es)
  obtain now ev where e: "e = (now, ev)" by (cases e)
  from Cons.prems(1) e obtain s1 where s1: "step now ev s = Some s1" "run es s1 = Some s'"
    by (auto split: option.splits)
  from Cons.prems(4) e have w: "now < due T" "holdEvent g ev" "holdWindow g (due T) es"
    by (simp_all add: holdWindow_def)
  from windowInv_step [OF Cons.prems(2,3) w(1,2) s1(1)] have "windowInv g T E s1" .
  from Cons.IH [OF s1(2) this Cons.prems(3) w(3)] show ?case .
qed

lemma ready_clear:
  assumes "canvasCtx s" "canvasElement s" "\<not> isCalibrating s" "gestureCallback s"
  shows "canvasCtx (clearNoLandmarksTimeout (s\<lparr> lastLandmarkTime := now \<rparr>))"
    "canvasElement (clearNoLandmarksTimeout (s\<lparr> lastLandmarkTime := now \<rparr>))"
    "\<not> isCalibrating (clearNoLandmarksTimeout (s\<lparr> lastLandmarkTime := now \<rparr>))"
    "gestureCallback (clearNoLandmarksTimeout (s\<lparr> lastLandmarkTime := now \<rparr>))"
  using assms
  by (simp_all add: clearNoLandmarksTimeout_def clearTimeout_def split: option.splits)

lemma one_hand_frame:
  assumes "canvasCtx s" "canvasElement s" "\<not> isCalibrating s" "gestureCallback s"
    and "detectImprovedGesture (Some h) = Inr g" "0 < g"
  shows "canvasCtx (onResults now (Some [h]) s)"
    and "canvasElement (onResults now (Some [h]) s)"
    and "\<not> isCalibrating (onResults now (Some [h]) s)"
    and "gestureCallback (onResults now (Some [h]) s)"
    and "streak (gestureConfidence (onResults now (Some [h]) s)) g
           = streak (gestureConfidence s) g + 1"
    and "lastGestureDetected (onResults now (Some [h]) s)
           = (if firing g s then g else lastGestureDetected s)"
    and "gestureEvents (onResults now (Some [h]) s)
           = gestureEvents s @ (if firing g s then [(now, g)] else [])"
proof -
  let ?s2 = "clearNoLandmarksTimeout (s\<lparr> lastLandmarkTime := now \<rparr>)"
  have step: "onResults now (Some [h]) s = processGestureWithConfidence now g ?s2"
    by (rule onResults_one_hand) (rule assms)+
  note r = ready_clear [OF assms(1-4), of now]
  have ev: "gestureEvents ?s2 = gestureEvents s"
    by (simp add: gestureEvents_def debouncer_clearNoLandmarksTimeout)
  show "canvasCtx (onResults now (Some [h]) s)"
    "canvasElement (onResults now (Some [h]) s)"
    "\<not> isCalibrating (onResults now (Some [h]) s)"
    "gestureCallback (onResults now (Some [h]) s)"
    unfolding step using r by (simp_all add: pgc_flags)
  show "streak (gestureConfidence (onResults now (Some [h]) s)) g
           = streak (gestureConfidence s) g + 1"
    unfolding step by (simp add: pgc_confidence streak_def debouncer_clearNoLandmarksTimeout)
  show "lastGestureDetected (onResults now (Some [h]) s)
           = (if firing g s then g else lastGestureDetected s)"
    unfolding step by (simp add: pgc_last firing_clear debouncer_clearNoLandmarksTimeout)
  show "gestureEvents (onResults now (Some [h]) s)
           = gestureEvents s @ (if firing g s then [(now, g)] else [])"
    unfolding step by (simp add: pgc_gestureEvents [OF r(4)] firing_clear ev)
qed

lemma three_frames_fire:
  assumes "canvasCtx s" "canvasElement s" "\<not> isCalibrating s" "gestureCallback s"
    and "0 < g" "detectImprovedGesture (Some h1) = Inr g"
    and "detectImprovedGesture (Some h2) = Inr g" "detectImprovedGesture (Some h3) = Inr g"
    and "gestureConfidence s = Map.empty" "lastGestureDetected s = 0"
  shows "gestureEvents (onResults t3 (Some [h3]) (onResults t2 (Some [h2])
           (onResults t1 (Some [h1]) s))) = gestureEvents s @ [(t3, g)]"
proof -
  let ?a = "onResults t1 (Some [h1]) s"
  let ?b = "onResults t2 (Some [h2]) ?a"
  note a = one_hand_frame [OF assms(1-4) assms(6,5), of t1]
  note b = one_hand_frame [OF a(1-4) assms(7,5), of t2]
  note c = one_hand_frame [OF b(1-4) assms(8,5), of t3]
  have s0: "streak (gestureConfidence s) g = 0" "\<not> firing g s"
    using assms(9) by (simp_all add: streak_def firing_def gestureThreshold_def)
  have sa: "streak (gestureConfidence ?a) g = 1" "lastGestureDetected ?a = 0"
    "gestureEvents ?a = gestureEvents s"
    using a(5-7) s0 assms(10) by simp_all
  then have fa: "\<not> firing g ?a" by (simp add: firing_def gestureThreshold_def)
  have sb: "streak (gestureConfidence ?b) g = 2" "lastGestureDetected ?b = 0"
    "gestureEvents ?b = gestureEvents s"
    using b(5-7) sa fa by simp_all
  then have fb: "firing g ?b" using assms(5) by (simp add: firing_def gestureThreshold_def)
  show ?thesis using c(7) sb fb by simp
qed

lemma window_start:
  assumes "canvasCtx s" "canvasElement s" "\<not> isCalibrating s" "gestureCallback s"
    and "detectImprovedGesture (Some h) = Inr g" "0 < g"
    and "firing g s" "pending CooldownReset s = []" "timersFresh s"
  shows "windowInv g (cooldownTimer (nextTimerId s) t0) (gestureEvents s @ [(t0, g)])
           (onResults t0 (Some [h]) s)"
proof -
  let ?s2 = "clearNoLandmarksTimeout (s\<lparr> lastLandmarkTime := t0 \<rparr>)"
  have step: "onResults t0 (Some [h]) s = processGestureWithConfidence t0 g ?s2"
    by (rule onResults_one_hand) (rule assms)+
  note f = one_hand_frame [OF assms(1-6), of t0]
  have fr: "firing g ?s2" using assms(7) by (simp add: firing_clear)
  have nid: "nextTimerId ?s2 = nextTimerId s"
    by (simp add: clearNoLandmarksTimeout_def clearTimeout_def split: option.splits)
  have sub: "set (timers ?s2) \<subseteq> set (timers s)"
    by (auto simp add: clearNoLandmarksTimeout_def clearTimeout_def split: option.splits)
  have tm: "timers (onResults t0 (Some [h]) s)
      = timers ?s2 @ [cooldownTimer (nextTimerId s) t0]"
    unfolding step by (simp add: pgc_timers fr nid cooldownTimer_def)
  have nx: "nextTimerId (onResults t0 (Some [h]) s) = nextTimerId s + 1"
    unfolding step using fr
    by (simp add: processGestureWithConfidence_def Let_def firing_def streak_def resetOthers_def
          setTimeout_def emit_def nid)
  have hd: "noLandmarksTimeout (onResults t0 (Some [h]) s) = None"
    "stuckDetectionTimer (onResults t0 (Some [h]) s) = stuckDetectionTimer s"
    unfolding step
    by (simp_all add: processGestureWithConfidence_def Let_def setTimeout_def emit_def
          clearNoLandmarksTimeout_def clearTimeout_def split: option.splits)
  have old: "\<forall>t \<in> set (timers s). cb t \<noteq> CooldownReset \<and> tid t < nextTimerId s"
    using assms(8,9) by (auto simp add: pending_def timersFresh_def list_all_iff filter_empty_conv)
  have st: "stuckDetectionTimer s \<noteq> Some (nextTimerId s)"
    using assms(9) by (auto simp add: timersFresh_def handleBelow_def)
  from old sub have old2: "\<forall>t \<in> set (timers ?s2). cb t \<noteq> CooldownReset \<and> tid t \<noteq> nextTimerId s"
    by fastforce
  have last: "lastGestureDetected (onResults t0 (Some [h]) s) = g"
    and ev: "gestureEvents (onResults t0 (Some [h]) s) = gestureEvents s @ [(t0, g)]"
    using f(6,7) assms(7) by simp_all
  show ?thesis
    unfolding windowInv_def tm nx hd last ev list_all_iff
    using f(1-4) old2 st by (auto simp add: cooldownTimer_def)
qed

lemma cooldown_fires:
  assumes "windowInv g T E s" "cb T = CooldownReset" "period T = None" "due T \<le> now"
  shows "\<exists>ts. fireTimer now (tid T) s
           = Some (s\<lparr> timers := ts, lastGestureDetected := 0, gestureConfidence := Map.empty \<rparr>)"
proof -
  from assms(1) have T: "T \<in> set (timers s)"
    and uniq: "\<forall>t \<in> set (timers s). tid t = tid T \<longrightarrow> t = T"
    by (simp_all add: windowInv_def list_all_iff)
  have "\<exists>ts'. takeDue now (tid T) ts = Some (CooldownReset, ts')"
    if "T \<in> set ts" "\<forall>t \<in> set ts. tid t = tid T \<longrightarrow> t = T" for ts
    using that assms(2-4)
  proof (induction ts)
    case Nil
    then show ?case by simp
  next
    case (Cons t ts)
    show ?case
    proof (cases "tid t = tid T")
      case True
      with Cons.prems have "t = T" by simp
      with Cons.prems show ?thesis by simp
    next
      case False
      with Cons.prems have "T \<in> set ts" by auto
      with Cons.IH Cons.prems obtain ts' where "takeDue now (tid T) ts = Some (CooldownReset, ts')"
        by auto
      with False show ?thesis by simp
    qed
  qed
  from this [OF T uniq] obtain ts' where "takeDue now (tid T) (timers s) = Some (CooldownReset, ts')"
    by blast
  then have "fireTimer now (tid T) s
      = Some (s\<lparr> timers := ts', lastGestureDetected := 0, gestureConfidence := Map.empty \<rparr>)"
    by (simp add: fireTimer_def runCallback_def)
  then show ?thesis by blast
qed

lemma run_staleTrace: "run staleTrace newService = Some staleCooldown"
  by (simp add: staleTrace_def run_append run_readyTrace step_def staleCooldown_def)

lemma staleCooldown_facts:
  "canvasCtx staleCooldown" "canvasElement staleCooldown" "\<not> isCalibrating staleCooldown"
  "gestureCallback staleCooldown" "firing 2 staleCooldown"
  "gestureEvents staleCooldown = [(5300, 3)]"
  by (simp_all add: staleCooldown_def readyService_def serviceDefs detect_twoFingers
        detect_threeFingers)

lemma staleCooldown_fires:
  "gestureEvents (onResults 5700 (Some [twoFingers]) staleCooldown) = [(5300, 3), (5700, 2)]"
  by (simp add: staleCooldown_def readyService_def serviceDefs detect_twoFingers
        detect_threeFingers)

lemma run_staleWindow:
  "map_option gestureEvents
         (run staleWindow (onResults 5700 (Some [twoFingers]) staleCooldown))
       = Some [(5300, 3), (5700, 2), (6600, 2)]"
  by (simp add: staleWindow_def staleCooldown_def readyService_def serviceDefs runDefs
        detect_twoFingers detect_threeFingers)

lemma heldTwice_firing:
  "firing 2 heldTwice" "pending CooldownReset heldTwice = []" "nextTimerId heldTwice = 3"
  by (simp_all add: heldTwice_def readyService_def serviceDefs detect_twoFingers)

lemma holdWindow_heldWindow: "holdWindow 2 (5300 + 1000) heldWindow"
  by (simp add: holdWindow_def heldWindow_def holdEvent_def holdsPose_def detect_twoFingers
        detect_fist)

lemma holdWindow_staleWindow: "holdWindow 2 (5700 + 1000) staleWindow"
  by (simp add: holdWindow_def staleWindow_def holdEvent_def holdsPose_def detect_twoFingers)

lemma run_heldWindow:
  "map_option gestureEvents (run heldWindow (onResults 5300 (Some [twoFingers]) heldTwice))
     = Some [(5300, 2)]"
  "map_option canvasCtx (run heldWindow (onResults 5300 (Some [twoFingers]) heldTwice))
     = Some True"
  by (simp_all add: heldWindow_def heldTwice_def readyService_def serviceDefs runDefs
        detect_twoFingers detect_fist)

subsection \<open>The gate in front of the game logic\<close>











section \<open>The claims\<close>

text \<open>
  Claim C1. For every combination of the five finger-extension flags of a frame, the
  classifier returns the code of the specification's decision order, the first match
  winning: 6 when the thumb is up and no other finger is extended; else 5 when at least
  four non-thumb fingers are extended; else the number \<open>k\<close> of extended non-thumb
  fingers when \<open>1 \<le> k \<le> 4\<close>; else 0. This is the code \<open>detectImprovedGesture\<close> returns for
  a frame of at least 21 landmarks, computed from the flags of that frame, and it is
  never above 6.
\<close>

theorem C1_classifier_decision_order:
  "gestureOfFlags f = specGestureCode (isThumbUp f) (nonThumbCount f)
   \<and> detectImprovedGesture (Some lms) =
       (if length lms < 21 then Inr 0
        else bnd (fingerFlagsOf lms)
               (\<lambda>f. Inr (specGestureCode (isThumbUp f) (nonThumbCount f))))
   \<and> specGestureCode thumbUp k \<le> 6"
proof -
  have eq: "gestureOfFlags f = specGestureCode (isThumbUp f) (nonThumbCount f)" for f
    by (simp add: gestureOfFlags_def specGestureCode_def extendedFingerCount_nonThumbCount)
  have "specGestureCode thumbUp k \<le> 6"
    by (simp add: specGestureCode_def)
  with eq show ?thesis
    by (simp add: detectImprovedGesture_def)
qed

text \<open>
  Claim C4. The coordinates of a landmark and the results of the subtractions are IEEE
  binary64 numbers, and \<open>0.07\<close>, \<open>0.05\<close>, \<open>0.1\<close> are the binary64 numbers nearest to these
  decimals (\<open>0.07\<close> is \<open>1261007895663739 / 2^54\<close>, \<open>0.05\<close> is \<open>3602879701896397 / 2^56\<close>, \<open>0.1\<close>
  is \<open>3602879701896397 / 2^55\<close>, each a little above the decimal). For every hand
  observation of at least 21 landmarks, a non-thumb finger is classified extended exactly
  when \<open>tip.y < pip.y - 0.07\<close> and \<open>|tip.z - pip.z| < 0.07\<close> hold of the rounded differences,
  and the thumb is classified up exactly when \<open>tip.y < pip.y - 0.05\<close> and
  \<open>|tip.z - pip.z| < 0.1\<close> hold of the rounded differences. The tips are the landmarks 4,
  8, 12, 16, 20, the joints compared with them the landmarks 3, 6, 10, 14, 18. Of the
  exact differences and the decimal thresholds one direction holds: a finger classified
  extended, its coordinates being finite binary64 numbers, has its tip more than 0.07
  (the thumb: 0.05) above the joint and the depths of the two less than 0.07 (the thumb:
  0.1) apart.
\<close>

theorem C4_finger_extension_thresholds:
  assumes "21 \<le> length lms" and "fingerFlagsOf lms = Inr f"
  shows "isIndexExtended f =
           (dlt (y (lms ! 8)) (dsub (y (lms ! 6)) (literal (7 / 100)))
            \<and> dlt (dabs (dsub (z (lms ! 8)) (z (lms ! 6)))) (literal (7 / 100)))
       \<and> isMiddleExtended f =
           (dlt (y (lms ! 12)) (dsub (y (lms ! 10)) (literal (7 / 100)))
            \<and> dlt (dabs (dsub (z (lms ! 12)) (z (lms ! 10)))) (literal (7 / 100)))
       \<and> isRingExtended f =
           (dlt (y (lms ! 16)) (dsub (y (lms ! 14)) (literal (7 / 100)))
            \<and> dlt (dabs (dsub (z (lms ! 16)) (z (lms ! 14)))) (literal (7 / 100)))
       \<and> isPinkyExtended f =
           (dlt (y (lms ! 20)) (dsub (y (lms ! 18)) (literal (7 / 100)))
            \<and> dlt (dabs (dsub (z (lms ! 20)) (z (lms ! 18)))) (literal (7 / 100)))
       \<and> isThumbUp f =
           (dlt (y (lms ! 4)) (dsub (y (lms ! 3)) (literal (5 / 100)))
            \<and> dlt (dabs (dsub (z (lms ! 4)) (z (lms ! 3)))) (literal (1 / 10)))
       \<and> literal (7 / 100) = Fin (1261007895663739 / 2 ^ 54)
       \<and> literal (5 / 100) = Fin (3602879701896397 / 2 ^ 56)
       \<and> literal (1 / 10) = Fin (3602879701896397 / 2 ^ 55)
       \<and> (isFingerExtended tip pip mcp wrist False
            \<and> y tip = Fin a \<and> y pip = Fin b \<and> z tip = Fin u \<and> z pip = Fin v
            \<and> fromReal a = Fin a
          \<longrightarrow> a < b - 1261007895663739 / 2 ^ 54 \<and> a < b - 7 / 100 \<and> \<bar>u - v\<bar> < 7 / 100)
       \<and> (isFingerExtended tip pip mcp wrist True
            \<and> y tip = Fin a \<and> y pip = Fin b \<and> z tip = Fin u \<and> z pip = Fin v
            \<and> fromReal a = Fin a
          \<longrightarrow> a < b - 3602879701896397 / 2 ^ 56 \<and> a < b - 5 / 100 \<and> \<bar>u - v\<bar> < 1 / 10)"
proof -
  have flags: "isIndexExtended f =
           (dlt (y (lms ! 8)) (dsub (y (lms ! 6)) (literal (7 / 100)))
            \<and> dlt (dabs (dsub (z (lms ! 8)) (z (lms ! 6)))) (literal (7 / 100)))
       \<and> isMiddleExtended f =
           (dlt (y (lms ! 12)) (dsub (y (lms ! 10)) (literal (7 / 100)))
            \<and> dlt (dabs (dsub (z (lms ! 12)) (z (lms ! 10)))) (literal (7 / 100)))
       \<and> isRingExtended f =
           (dlt (y (lms ! 16)) (dsub (y (lms ! 14)) (literal (7 / 100)))
            \<and> dlt (dabs (dsub (z (lms ! 16)) (z (lms ! 14)))) (literal (7 / 100)))
       \<and> isPinkyExtended f =
           (dlt (y (lms ! 20)) (dsub (y (lms ! 18)) (literal (7 / 100)))
            \<and> dlt (dabs (dsub (z (lms ! 20)) (z (lms ! 18)))) (literal (7 / 100)))
       \<and> isThumbUp f =
           (dlt (y (lms ! 4)) (dsub (y (lms ! 3)) (literal (5 / 100)))
            \<and> dlt (dabs (dsub (z (lms ! 4)) (z (lms ! 3)))) (literal (1 / 10)))"
    using assms(2) unfolding fingerFlagsOf_full [OF assms(1)]
    by (auto simp add: isFingerExtended_def)
  have finger: "a < b - 1261007895663739 / 2 ^ 54 \<and> a < b - 7 / 100 \<and> \<bar>u - v\<bar> < 7 / 100"
    if "isFingerExtended tip pip mcp wrist False"
      and "y tip = Fin a" "y pip = Fin b" "z tip = Fin u" "z pip = Fin v"
      and "fromReal a = Fin a"
    using isFingerExtended_exact [OF that] by blast
  have thumb: "a < b - 3602879701896397 / 2 ^ 56 \<and> a < b - 5 / 100 \<and> \<bar>u - v\<bar> < 1 / 10"
    if "isFingerExtended tip pip mcp wrist True"
      and "y tip = Fin a" "y pip = Fin b" "z tip = Fin u" "z pip = Fin v"
      and "fromReal a = Fin a"
    using isThumbExtended_exact [OF that] by blast
  from flags finger thumb literal_7_100 literal_5_100 literal_1_10
  show ?thesis by blast
qed

theorem C4_finger_extension_thresholds_witness:
  "21 \<le> length (poseHand False True True False False)
   \<and> fingerFlagsOf (poseHand False True True False False) =
       Inr \<lparr> isThumbUp = False, isIndexExtended = True, isMiddleExtended = True,
             isRingExtended = False, isPinkyExtended = False \<rparr>
   \<and> dlt (y (poseHand False True True False False ! 8))
          (dsub (y (poseHand False True True False False ! 6)) (literal (7 / 100)))
   \<and> dlt (dabs (dsub (z (poseHand False True True False False ! 8))
                      (z (poseHand False True True False False ! 6)))) (literal (7 / 100))
   \<and> \<not> dlt (y (poseHand False True True False False ! 16))
            (dsub (y (poseHand False True True False False ! 14)) (literal (7 / 100)))
   \<and> isFingerExtended (pt (1 / 4)) (pt (1 / 2)) (pt (5 / 8)) (pt (7 / 8)) False
   \<and> fromReal (1 / 4) = Fin (1 / 4)
   \<and> (1 / 4 :: real) < 1 / 2 - 7 / 100
   \<and> isFingerExtended (pt (1 / 2)) (pt (5 / 8)) (pt (11 / 16)) (pt (7 / 8)) True
   \<and> fromReal (1 / 2) = Fin (1 / 2)
   \<and> (1 / 2 :: real) < 5 / 8 - 5 / 100"
proof -
  have len: "21 \<le> length (poseHand False True True False False)"
    by (simp add: length_poseHand)
  have fl: "fingerFlagsOf (poseHand False True True False False) =
       Inr \<lparr> isThumbUp = False, isIndexExtended = True, isMiddleExtended = True,
             isRingExtended = False, isPinkyExtended = False \<rparr>"
    by (rule fingerFlagsOf_poseHand)
  have ex: "(1 / 4 :: real) < 1 / 2 - 7 / 100" "(1 / 2 :: real) < 5 / 8 - 5 / 100"
    by simp_all
  from C4_finger_extension_thresholds [OF len fl, where tip = "pt (1 / 4)"
      and pip = "pt (1 / 2)" and mcp = "pt (5 / 8)" and wrist = "pt (7 / 8)"
      and a = "1 / 4" and b = "1 / 2" and u = 0 and v = 0]
    C4_finger_extension_thresholds [OF len fl, where tip = "pt (1 / 2)"
      and pip = "pt (5 / 8)" and mcp = "pt (11 / 16)" and wrist = "pt (7 / 8)"
      and a = "1 / 2" and b = "5 / 8" and u = 0 and v = 0]
    len fl isFingerExtended_pt(1,3) twoFingers_comparisons edge_representable(3,4) ex
  show ?thesis by blast
qed

text \<open>
  Claim C4, as the specification words it, does not hold of exact differences. In the
  observation \<open>edgeHand\<close> all coordinates are binary64 numbers, the tip of the index finger
  is more than 0.07 above its middle joint (also by more than the binary64 \<open>0.07\<close>) and
  the depths of the two are equal, but \<open>0.75 - 0.07\<close> rounds to the tip's own \<open>y\<close>, the
  comparison of line 375 fails, and the finger is not classified extended: the
  observation is classified as code 0, where the claim's condition gives code 1.
\<close>

theorem C4_finger_extension_thresholds_counterexample:
  "length edgeHand = 21
   \<and> y (edgeHand ! 8) = Fin (6124895493223874 / 2 ^ 53)
   \<and> y (edgeHand ! 6) = Fin (3 / 4)
   \<and> z (edgeHand ! 8) = Fin 0 \<and> z (edgeHand ! 6) = Fin 0
   \<and> fromReal (6124895493223874 / 2 ^ 53) = Fin (6124895493223874 / 2 ^ 53)
   \<and> fromReal (3 / 4) = Fin (3 / 4)
   \<and> (6124895493223874 / 2 ^ 53 :: real) < 3 / 4 - 7 / 100
   \<and> (6124895493223874 / 2 ^ 53 :: real) < 3 / 4 - 1261007895663739 / 2 ^ 54
   \<and> \<bar>0 - 0 :: real\<bar> < 7 / 100
   \<and> fingerFlagsOf edgeHand = Inr noFlags
   \<and> isIndexExtended noFlags = False
   \<and> detectImprovedGesture (Some edgeHand) = Inr 0"
proof -
  have "(6124895493223874 / 2 ^ 53 :: real) < 3 / 4 - 7 / 100"
    "(6124895493223874 / 2 ^ 53 :: real) < 3 / 4 - 1261007895663739 / 2 ^ 54"
    "\<bar>0 - 0 :: real\<bar> < 7 / 100"
    "isIndexExtended noFlags = False"
    by (simp_all add: noFlags_def)
  with length_edgeHand edgeHand_index edge_representable(1,2) fingerFlagsOf_edgeHand
    detect_edgeHand
  show ?thesis by blast
qed

text \<open>
  Claim C5. A landmark list that is missing, empty or shorter than 21 entries is
  classified as code 0 (no gesture), the code of a hand with no finger flagged extended;
  the classifier returns this code and raises no error, whatever the entries are.
\<close>

theorem C5_malformed_observation_is_no_gesture:
  "detectImprovedGesture None = Inr 0
   \<and> detectImprovedGesture (Some []) = Inr 0
   \<and> (length lms < 21 \<longrightarrow>
        detectImprovedGesture (Some lms) = Inr 0
        \<and> detectImprovedGesture (Some lms) = Inr (gestureOfFlags noFlags))"
  by (simp add: detectImprovedGesture_def gestureOfFlags_def noFlags_def
        extendedFingerCount_def)

theorem C5_malformed_observation_is_no_gesture_witness:
  "length (take 10 (poseHand True True True True True)) < 21
   \<and> detectImprovedGesture (Some (take 10 (poseHand True True True True True))) = Inr 0
   \<and> detectImprovedGesture (Some (poseHand True True True True True)) = Inr 5"
proof -
  have short: "length (take 10 (poseHand True True True True True)) < 21"
    by (simp add: length_poseHand)
  from C5_malformed_observation_is_no_gesture [of "take 10 (poseHand True True True True True)"]
    short show ?thesis
    by (simp add: detectImprovedGesture_poseHand gestureOfFlags_def extendedFingerCount_def)
qed

text \<open>
  Claim C6. A processed frame whose hands are all classified as code 0 leaves the
  debouncer as it was: no streak counter changes, the last-fired code is untouched and no
  gesture event is emitted; the streaks persist across such frames.
\<close>

theorem C6_zero_code_leaves_debouncer:
  assumes "\<forall>h \<in> set hs. detectImprovedGesture (Some h) = Inr 0"
  shows "gestureConfidence (onResults now (Some hs) s) = gestureConfidence s
       \<and> lastGestureDetected (onResults now (Some hs) s) = lastGestureDetected s
       \<and> gestureEvents (onResults now (Some hs) s) = gestureEvents s"
proof -
  obtain c where "forEachHand now hs (clearNoLandmarksTimeout (s\<lparr> lastLandmarkTime := now \<rparr>))
      = (clearNoLandmarksTimeout (s\<lparr> lastLandmarkTime := now \<rparr>))\<lparr> calibrationData := c \<rparr>"
    using forEachHand_zero [OF assms] by blast
  then show ?thesis
    by (simp add: onResults_def Let_def debouncer_clearNoLandmarksTimeout gestureEvents_def
          setTimeout_def split: option.splits)
qed

theorem C6_zero_code_leaves_debouncer_witness:
  "detectImprovedGesture (Some fist) = Inr 0
   \<and> streak (gestureConfidence (onResults 5300 (Some [fist]) heldTwice)) 2 = 2
   \<and> lastGestureDetected (onResults 5300 (Some [fist]) heldTwice) = 0
   \<and> gestureEvents (onResults 5300 (Some [fist]) heldTwice) = []"
proof -
  have zero: "\<forall>h \<in> set [fist]. detectImprovedGesture (Some h) = Inr 0"
    by (simp add: detect_fist)
  from C6_zero_code_leaves_debouncer [OF zero, of 5300 heldTwice]
  show ?thesis
    by (simp add: heldTwice_facts detect_fist)
qed

text \<open>
  Claim C2. In every state the service reaches, a processed frame whose single hand is
  classified as a nonzero code \<open>g\<close> (the service being set up and not calibrating) sets
  the streak of every other tracked code to 0, tracks no new code but \<open>g\<close>, and adds 1
  to the streak of \<open>g\<close>. The frame emits the gesture event \<open>g\<close>, once, if and only if the
  streak of \<open>g\<close> thereby reaches 3 and \<open>g\<close> is not the code that fired last; otherwise it
  emits nothing.
\<close>

theorem C2_debouncer_step:
  assumes "canvasCtx s" "canvasElement s" "\<not> isCalibrating s" "gestureCallback s"
    and "detectImprovedGesture (Some h) = Inr g" "0 < g"
    and "run es newService = Some s"
  shows "(\<forall>k. k \<noteq> g \<longrightarrow>
            gestureConfidence (onResults now (Some [h]) s) k
              = map_option (\<lambda>_. 0) (gestureConfidence s k))
       \<and> gestureConfidence (onResults now (Some [h]) s) g
           = Some (streak (gestureConfidence s) g + 1)
       \<and> gestureEvents (onResults now (Some [h]) s)
           = gestureEvents s
             @ (if streak (gestureConfidence s) g + 1 = 3 \<and> g \<noteq> lastGestureDetected s
                then [(now, g)] else [])
       \<and> lastGestureDetected (onResults now (Some [h]) s)
           = (if streak (gestureConfidence s) g + 1 = 3 \<and> g \<noteq> lastGestureDetected s
              then g else lastGestureDetected s)"
proof -
  let ?s2 = "clearNoLandmarksTimeout (s\<lparr> lastLandmarkTime := now \<rparr>)"
  have step: "onResults now (Some [h]) s = processGestureWithConfidence now g ?s2"
    by (rule onResults_one_hand) (rule assms)+
  have inv: "debouncerInv s"
    using debouncerInv_run [OF assms(7) debouncerInv_newService] .
  have fire: "firing g ?s2 =
      (streak (gestureConfidence s) g + 1 = 3 \<and> g \<noteq> lastGestureDetected s)"
    unfolding firing_clear using firing_exact [OF inv, of g]
    by (auto simp add: firing_def gestureThreshold_def)
  have cb: "gestureCallback ?s2"
    using assms(4) by (simp add: clearNoLandmarksTimeout_def clearTimeout_def split: option.splits)
  have ev: "gestureEvents ?s2 = gestureEvents s"
    by (simp add: gestureEvents_def debouncer_clearNoLandmarksTimeout)
  show ?thesis
    unfolding step
    by (simp add: pgc_confidence pgc_last pgc_gestureEvents [OF cb] fire ev
          debouncer_clearNoLandmarksTimeout resetOthers_def)
qed

theorem C2_debouncer_step_witness:
  "canvasCtx heldTwice \<and> canvasElement heldTwice \<and> \<not> isCalibrating heldTwice
   \<and> gestureCallback heldTwice
   \<and> detectImprovedGesture (Some twoFingers) = Inr 2 \<and> (0::nat) < 2
   \<and> run (readyTrace @ [(5100, OnResults (Some [twoFingers])),
                         (5200, OnResults (Some [twoFingers]))]) newService = Some heldTwice
   \<and> gestureConfidence (onResults 5300 (Some [twoFingers]) heldTwice) 2 = Some 3
   \<and> gestureEvents (onResults 5300 (Some [twoFingers]) heldTwice) = [(5300, 2)]
   \<and> lastGestureDetected (onResults 5300 (Some [twoFingers]) heldTwice) = 2"
proof -
  have pos: "(0::nat) < 2" by simp
  from C2_debouncer_step [OF heldTwice_facts(1-4) detect_twoFingers pos run_heldTwice, of 5300]
  show ?thesis
    by (simp add: heldTwice_facts detect_twoFingers run_heldTwice)
qed

text \<open>
  Claim C7. A camera frame that arrives less than 1000/15 ms after the last processed
  frame is dropped: the state is left exactly as it was, so nothing is queued for later.
  In every run of the service, any two frames forwarded to the pose model are more than
  1000/15 ms apart, and at most 15 of them fall into any window of one second.
\<close>

theorem C7_frame_rate_limiter:
  "(real_of_int (now - lastFrameProcessed s) < 1000 / 15 \<longrightarrow> onFrame now s = s)
   \<and> (run es newService = Some s' \<longrightarrow>
        sorted_wrt (\<lambda>a b. 1000 / 15 < real_of_int (b - a)) (sendTimes s')
        \<and> length (filter (\<lambda>t. w \<le> t \<and> t \<le> w + 1000) (sendTimes s')) \<le> 15)"
proof (intro conjI impI)
  assume "real_of_int (now - lastFrameProcessed s) < 1000 / 15"
  then show "onFrame now s = s"
    by (simp add: onFrame_def processingFrameRate_def)
next
  assume "run es newService = Some s'"
  from limiterInv_run [OF this limiterInv_newService]
  have sp: "sorted_wrt (\<lambda>a b. a + 67 \<le> b) (sendTimes s')"
    by (simp add: limiterInv_def)
  have "(\<lambda>a b :: int. a + 67 \<le> b) = (\<lambda>a b. 1000 / 15 < real_of_int (b - a))"
    using frame_gate by (auto simp add: fun_eq_iff processingFrameRate_def)
  with sp show "sorted_wrt (\<lambda>a b. 1000 / 15 < real_of_int (b - a)) (sendTimes s')"
    by simp
  from sp show "length (filter (\<lambda>t. w \<le> t \<and> t \<le> w + 1000) (sendTimes s')) \<le> 15"
    by (rule spaced_window)
qed

theorem C7_frame_rate_limiter_witness:
  "real_of_int (5130 - lastFrameProcessed (onFrame 5100 readyService)) < 1000 / 15
   \<and> onFrame 5130 (onFrame 5100 readyService) = onFrame 5100 readyService
   \<and> run (readyTrace @ [(5100, OnFrame), (5130, OnFrame), (5200, OnFrame)]) newService
       = Some (onFrame 5200 (onFrame 5100 readyService))
   \<and> sendTimes (onFrame 5200 (onFrame 5100 readyService)) = [5100, 5200]
   \<and> length (filter (\<lambda>t. 5000 \<le> t \<and> t \<le> 6000)
         (sendTimes (onFrame 5200 (onFrame 5100 readyService)))) \<le> 15"
proof -
  have near: "real_of_int (5130 - lastFrameProcessed (onFrame 5100 readyService)) < 1000 / 15"
    by code_simp
  have drop: "onFrame 5130 (onFrame 5100 readyService) = onFrame 5100 readyService"
    using C7_frame_rate_limiter [of 5130 "onFrame 5100 readyService"] near by blast
  have run: "run (readyTrace @ [(5100, OnFrame), (5130, OnFrame), (5200, OnFrame)]) newService
       = Some (onFrame 5200 (onFrame 5100 readyService))"
    by (simp add: run_append run_readyTrace step_def drop)
  have sent: "sendTimes (onFrame 5200 (onFrame 5100 readyService)) = [5100, 5200]"
    by code_simp
  from C7_frame_rate_limiter [of _ _ _ "onFrame 5200 (onFrame 5100 readyService)" 5000] run
  have "length (filter (\<lambda>t. 5000 \<le> t \<and> t \<le> 6000)
         (sendTimes (onFrame 5200 (onFrame 5100 readyService)))) \<le> 15"
    by simp
  with near drop run sent show ?thesis by blast
qed

text \<open>
  Claim C3, as amended. Let the gesture \<open>g\<close> fire at time \<open>t0\<close> in a state the service
  has reached, with no cool-down of an earlier firing pending. As long as the pose is
  held (every hand the pose model reports is classified as \<open>g\<close> or as nothing) and
  \<open>startCalibration\<close> is not called, no second gesture event is emitted before
  \<open>t0 + 1000\<close>, and \<open>g\<close> stays the last-fired code, whatever else happens in that second:
  frames, timers running, the camera stopping or failing to start, the service being
  initialised again. The cool-down timer set by the firing is still pending then; it can
  run at any time from \<open>t0 + 1000\<close> on, and when it runs it clears the last-fired code to
  0 and all streaks and emits nothing. After that, provided the canvas still has its
  drawing context, three results of the pose model that follow one another, each with one
  hand classified as \<open>g\<close>, fire \<open>g\<close> again, at the third of them.
\<close>

theorem C3_cooldown_after_firing:
  assumes reach: "run es0 newService = Some s"
    and ready: "canvasCtx s" "canvasElement s" "\<not> isCalibrating s" "gestureCallback s"
    and pose: "detectImprovedGesture (Some h) = Inr g" "0 < g"
    and fires: "firing g s"
    and nocool: "pending CooldownReset s = []"
    and window: "holdWindow g (t0 + 1000) es"
    and run: "run es (onResults t0 (Some [h]) s) = Some s'"
  shows "gestureEvents (onResults t0 (Some [h]) s) = gestureEvents s @ [(t0, g)]
       \<and> gestureEvents s' = gestureEvents s @ [(t0, g)]
       \<and> lastGestureDetected s' = g
       \<and> (\<forall>now. t0 + 1000 \<le> now \<longrightarrow>
            (\<exists>s''. fireTimer now (nextTimerId s) s' = Some s''
               \<and> lastGestureDetected s'' = 0 \<and> gestureConfidence s'' = Map.empty
               \<and> gestureEvents s'' = gestureEvents s'
               \<and> (\<forall>h1 h2 h3 t1 t2 t3.
                    canvasCtx s'
                    \<and> detectImprovedGesture (Some h1) = Inr g
                    \<and> detectImprovedGesture (Some h2) = Inr g
                    \<and> detectImprovedGesture (Some h3) = Inr g \<longrightarrow>
                    gestureEvents (onResults t2 (Some [h2]) (onResults t1 (Some [h1]) s''))
                      = gestureEvents s'
                    \<and> gestureEvents (onResults t3 (Some [h3]) (onResults t2 (Some [h2])
                         (onResults t1 (Some [h1]) s''))) = gestureEvents s' @ [(t3, g)])))"
proof -
  let ?T = "cooldownTimer (nextTimerId s) t0"
  let ?E = "gestureEvents s @ [(t0, g)]"
  have T: "cb ?T = CooldownReset" "period ?T = None" "due ?T = t0 + 1000"
    "tid ?T = nextTimerId s"
    by (simp_all add: cooldownTimer_def)
  have fresh: "timersFresh s"
    using timersFresh_run [OF reach timersFresh_newService] .
  have start: "windowInv g ?T ?E (onResults t0 (Some [h]) s)"
    by (rule window_start) (rule ready pose fires nocool fresh)+
  have "holdWindow g (due ?T) es" using window by (simp add: T)
  from windowInv_run [OF run start T(1) this] have inv: "windowInv g ?T ?E s'" .
  have first: "gestureEvents (onResults t0 (Some [h]) s) = ?E"
    using start by (simp add: windowInv_def)
  have second: "gestureEvents s' = ?E" "lastGestureDetected s' = g"
    using inv by (simp_all add: windowInv_def)
  have again: "\<exists>s''. fireTimer now (nextTimerId s) s' = Some s''
               \<and> lastGestureDetected s'' = 0 \<and> gestureConfidence s'' = Map.empty
               \<and> gestureEvents s'' = gestureEvents s'
               \<and> (\<forall>h1 h2 h3 t1 t2 t3.
                    canvasCtx s'
                    \<and> detectImprovedGesture (Some h1) = Inr g
                    \<and> detectImprovedGesture (Some h2) = Inr g
                    \<and> detectImprovedGesture (Some h3) = Inr g \<longrightarrow>
                    gestureEvents (onResults t2 (Some [h2]) (onResults t1 (Some [h1]) s''))
                      = gestureEvents s'
                    \<and> gestureEvents (onResults t3 (Some [h3]) (onResults t2 (Some [h2])
                         (onResults t1 (Some [h1]) s''))) = gestureEvents s' @ [(t3, g)])"
    if "t0 + 1000 \<le> now" for now
  proof -
    from that have "due ?T \<le> now" by (simp add: T)
    from cooldown_fires [OF inv T(1,2) this] obtain ts
      where f: "fireTimer now (nextTimerId s) s'
          = Some (s'\<lparr> timers := ts, lastGestureDetected := 0, gestureConfidence := Map.empty \<rparr>)"
      by (auto simp add: T)
    let ?c = "s'\<lparr> timers := ts, lastGestureDetected := 0, gestureConfidence := Map.empty \<rparr>"
    have r: "canvasElement ?c" "\<not> isCalibrating ?c" "gestureCallback ?c"
      using inv by (simp_all add: windowInv_def)
    have e: "gestureEvents ?c = gestureEvents s'" by (simp add: gestureEvents_def)
    have empty: "gestureConfidence ?c = Map.empty" "lastGestureDetected ?c = 0" by simp_all
    have "gestureEvents (onResults t2 (Some [h2]) (onResults t1 (Some [h1]) ?c))
            = gestureEvents s'
          \<and> gestureEvents (onResults t3 (Some [h3]) (onResults t2 (Some [h2])
            (onResults t1 (Some [h1]) ?c))) = gestureEvents s' @ [(t3, g)]"
      if ctx: "canvasCtx s'" and h: "detectImprovedGesture (Some h1) = Inr g"
        "detectImprovedGesture (Some h2) = Inr g" "detectImprovedGesture (Some h3) = Inr g"
      for h1 h2 h3 t1 t2 t3
    proof -
      from ctx have c: "canvasCtx ?c" by simp
      from three_frames_fire [OF c r pose(2) h empty, of t3 t2 t1]
      have third: "gestureEvents (onResults t3 (Some [h3]) (onResults t2 (Some [h2])
            (onResults t1 (Some [h1]) ?c))) = gestureEvents s' @ [(t3, g)]"
        by (simp add: e)
      let ?a = "onResults t1 (Some [h1]) ?c"
      note a = one_hand_frame [OF c r h(1) pose(2), of t1]
      note b = one_hand_frame [OF a(1-4) h(2) pose(2), of t2]
      have fc: "\<not> firing g ?c" by (simp add: firing_def streak_def gestureThreshold_def)
      with a(5-7) have sa: "streak (gestureConfidence ?a) g = 1" "lastGestureDetected ?a = 0"
        "gestureEvents ?a = gestureEvents s'"
        by (simp_all add: e streak_def)
      then have "\<not> firing g ?a" by (simp add: firing_def gestureThreshold_def)
      with b(7) sa have "gestureEvents (onResults t2 (Some [h2]) ?a) = gestureEvents s'"
        by simp
      with third show ?thesis by simp
    qed
    with f e empty show ?thesis by blast
  qed
  from first second again show ?thesis by blast
qed

theorem C3_cooldown_after_firing_witness:
  "run (readyTrace @ [(5100, OnResults (Some [twoFingers])),
                      (5200, OnResults (Some [twoFingers]))]) newService = Some heldTwice
   \<and> firing 2 heldTwice \<and> pending CooldownReset heldTwice = []
   \<and> holdWindow 2 (5300 + 1000) heldWindow
   \<and> gestureEvents (onResults 5300 (Some [twoFingers]) heldTwice) = [(5300, 2)]
   \<and> gestureEvents (the (run heldWindow (onResults 5300 (Some [twoFingers]) heldTwice)))
       = [(5300, 2)]
   \<and> canvasCtx (the (run heldWindow (onResults 5300 (Some [twoFingers]) heldTwice)))
   \<and> detectImprovedGesture (Some twoFingers) = Inr 2
   \<and> map_option lastGestureDetected
         (fireTimer 6300 3 (the (run heldWindow (onResults 5300 (Some [twoFingers]) heldTwice))))
       = Some 0
   \<and> map_option (gestureEvents \<circ> onResults 6500 (Some [twoFingers])
                     \<circ> onResults 6400 (Some [twoFingers]))
         (fireTimer 6300 3 (the (run heldWindow (onResults 5300 (Some [twoFingers]) heldTwice))))
       = Some [(5300, 2)]
   \<and> map_option (gestureEvents \<circ> onResults 6600 (Some [twoFingers])
                     \<circ> onResults 6500 (Some [twoFingers])
                     \<circ> onResults 6400 (Some [twoFingers]))
         (fireTimer 6300 3 (the (run heldWindow (onResults 5300 (Some [twoFingers]) heldTwice))))
       = Some [(5300, 2), (6600, 2)]"
proof -
  let ?s' = "the (run heldWindow (onResults 5300 (Some [twoFingers]) heldTwice))"
  have pos: "(0::nat) < 2" by simp
  have run: "run heldWindow (onResults 5300 (Some [twoFingers]) heldTwice) = Some ?s'"
    using run_heldWindow(1)
    by (cases "run heldWindow (onResults 5300 (Some [twoFingers]) heldTwice)") simp_all
  have ctx: "canvasCtx ?s'"
    using run_heldWindow(2)
    by (cases "run heldWindow (onResults 5300 (Some [twoFingers]) heldTwice)") simp_all
  note inst = C3_cooldown_after_firing [OF run_heldTwice heldTwice_facts(1-4) detect_twoFingers
      pos heldTwice_firing(1,2) holdWindow_heldWindow run]
  from inst have a: "gestureEvents (onResults 5300 (Some [twoFingers]) heldTwice) = [(5300, 2)]"
    and b: "gestureEvents ?s' = [(5300, 2)]"
    by (simp_all add: heldTwice_facts)
  have "(5300::int) + 1000 \<le> 6300" by simp
  from inst [THEN conjunct2, THEN conjunct2, THEN conjunct2, rule_format, OF this]
  obtain s'' where c: "fireTimer 6300 3 ?s' = Some s''" "lastGestureDetected s'' = 0"
    and all: "\<forall>h1 h2 h3 t1 t2 t3.
                canvasCtx ?s'
                \<and> detectImprovedGesture (Some h1) = Inr 2
                \<and> detectImprovedGesture (Some h2) = Inr 2
                \<and> detectImprovedGesture (Some h3) = Inr 2 \<longrightarrow>
                gestureEvents (onResults t2 (Some [h2]) (onResults t1 (Some [h1]) s''))
                  = gestureEvents ?s'
                \<and> gestureEvents (onResults t3 (Some [h3]) (onResults t2 (Some [h2])
                     (onResults t1 (Some [h1]) s''))) = gestureEvents ?s' @ [(t3, 2)]"
    by (auto simp add: heldTwice_firing)
  from all [rule_format, of twoFingers twoFingers twoFingers 6500 6400 6600] ctx
    detect_twoFingers
  have d: "gestureEvents (onResults 6500 (Some [twoFingers])
             (onResults 6400 (Some [twoFingers]) s'')) = gestureEvents ?s'"
    "gestureEvents (onResults 6600 (Some [twoFingers]) (onResults 6500 (Some [twoFingers])
        (onResults 6400 (Some [twoFingers]) s''))) = gestureEvents ?s' @ [(6600, 2)]"
    by simp_all
  show ?thesis
    using run_heldTwice heldTwice_firing(1,2) holdWindow_heldWindow a b c d ctx
      detect_twoFingers
    by simp
qed

text \<open>
  Counterexample to claim C3 as stated: the cool-down set by an earlier firing of another
  gesture is never cancelled. Three fingers fire at time 5300; two fingers fire at time
  5700 and stay held; at time 6300 the cool-down of the first firing runs and clears the
  last-fired code, and two fingers fire again at time 6600, 900 ms after they first fired.
\<close>

theorem C3_cooldown_after_firing_counterexample:
  "run staleTrace newService = Some staleCooldown
   \<and> canvasCtx staleCooldown \<and> canvasElement staleCooldown \<and> \<not> isCalibrating staleCooldown
   \<and> gestureCallback staleCooldown
   \<and> detectImprovedGesture (Some twoFingers) = Inr 2
   \<and> firing 2 staleCooldown
   \<and> gestureEvents (onResults 5700 (Some [twoFingers]) staleCooldown) = [(5300, 3), (5700, 2)]
   \<and> holdWindow 2 (5700 + 1000) staleWindow
   \<and> map_option gestureEvents
         (run staleWindow (onResults 5700 (Some [twoFingers]) staleCooldown))
       = Some [(5300, 3), (5700, 2), (6600, 2)]"
  using run_staleTrace staleCooldown_facts detect_twoFingers holdWindow_staleWindow
    staleCooldown_fires run_staleWindow
  by simp




text \<open>
  Claim C8 on the code: the pose model reports an empty frame twice a second from time
  500 to time 6000. Every such report cancels the no-observation timer and sets a new
  one, so none ever runs: after six seconds without a hand no restart has been signalled
  (the camera was never stopped and no re-initialisation is scheduled), and the pending
  no-observation timer is the one set by the last report, due at 11000.
\<close>

theorem C8_zero_hand_frames_never_restart:
  "map_option cameraStops (run zeroHandsTrace newService) = Some []
   \<and> map_option (pending InitializeCamera) (run zeroHandsTrace newService) = Some []
   \<and> map_option (pending NoLandmarksRestart) (run zeroHandsTrace newService)
       = Some [\<lparr> tid = 13, due = 11000, cb = NoLandmarksRestart, period = None \<rparr>]
   \<and> map_option sendTimes (run zeroHandsTrace newService)
       = Some [500, 1000, 1500, 2000, 2500, 3000, 3500, 4000, 4500, 5000, 5500, 6000]"
  by code_simp

text \<open>
  Claim C9 on the code. A hand is observed at time 1000; from time 1500 to time 8000 the
  pose model reports, twice a second, that no hand is in the frame. The liveness check
  runs at 2000, 4000, 6000 and 8000. When it runs at 6000 the last successful hand
  observation is 5000 ms old, when it runs at 8000 it is 7000 ms old, yet no restart is
  signalled: the camera is never stopped and no re-initialisation is scheduled, because
  every result, with or without a hand, sets \<open>lastLandmarkTime\<close> (line 165), so that the
  check never sees more than 500 ms. When the pose model reports nothing at all after
  the hand at time 1000, the check at 6000 does signal the restart: it stops the camera
  and schedules the re-initialisation for 6500.
\<close>

theorem C9_empty_results_defeat_liveness_check:
  "map_option cameraStops (run emptyResultsTrace newService) = Some []
   \<and> map_option (pending InitializeCamera) (run emptyResultsTrace newService) = Some []
   \<and> map_option cameraStartAttempts (run emptyResultsTrace newService) = Some 1
   \<and> map_option lastLandmarkTime (run emptyResultsTrace newService) = Some 8000
   \<and> map_option (pending StuckCheck) (run emptyResultsTrace newService)
       = Some [\<lparr> tid = 1, due = 10000, cb = StuckCheck, period = Some 2000 \<rparr>]
   \<and> map_option lastLandmarkTime (run silentTrace newService) = Some 1000
   \<and> map_option cameraStops (run silentTrace newService) = Some [6000]
   \<and> map_option (pending InitializeCamera) (run silentTrace newService)
       = Some [\<lparr> tid = 2, due = 6500, cb = InitializeCamera, period = None \<rparr>]"
  by (simp add: emptyResultsTrace_def silentTrace_def newService_def serviceDefs runDefs
        collectCalibrationData_def landmarkAt_def twoFingers_def length_poseHand)

end
